theory Spec2Isabelle
  imports Main "HOL-Library.Word"
begin

unbundle bit_operations_syntax

section \<open>The EncryptoVault contract (AccessControlLedger)\<close>

text \<open>
  The Solidity contract \<^verbatim>\<open>EncryptoVault\<close>. An \<^verbatim>\<open>address\<close> is a 160-bit word,
  \<^verbatim>\<open>uint256\<close> a 256-bit word, an \<^verbatim>\<open>euint64\<close> the 32-byte handle of a confidential
  value, and a Solidity \<^verbatim>\<open>string\<close> a list of bytes (an Isabelle \<open>string\<close>). A Solidity
  \<^verbatim>\<open>mapping\<close> is total, every key holding the zero value until written, so the mappings
  are total functions. The private state variables \<^verbatim>\<open>_documentCount\<close>, \<^verbatim>\<open>_documents\<close>,
  \<^verbatim>\<open>_collaborators\<close> and \<^verbatim>\<open>_collaboratorList\<close> are the fields \<open>p_documentCount\<close>,
  \<open>p_documents\<close>, \<open>p_collaborators\<close> and \<open>p_collaboratorList\<close>.
\<close>

type_synonym address = "160 word"
type_synonym uint256 = "256 word"
type_synonym euint64 = "256 word"
type_synonym bytes = "8 word list"

record Document =
  name :: string
  encryptedBody :: string
  encryptedSecret :: euint64
  owner :: address
  updatedAt :: uint256

datatype event =
    DocumentCreated uint256 address string
  | DocumentUpdated uint256 address string
  | AccessGranted uint256 address

text \<open>
  The custom errors of the contract, and the two reverts that come from outside its own
  \<^verbatim>\<open>revert\<close> statements: the arithmetic panic of the checked \<^verbatim>\<open>+=\<close> (Solidity 0.8) and a
  revert inside \<^verbatim>\<open>FHE.fromExternal\<close> (an input proof that does not verify).
\<close>

datatype error =
    DocumentNotFound uint256
  | NotDocumentOwner address
  | Unauthorized address
  | InvalidAddress
  | EmptyName
  | ArithmeticPanic
  | FromExternalReverted

text \<open>
  The ledger state. Besides the contract's storage it holds \<open>acl\<close>, the persistent
  permissions of the external confidential-value store (the FHE access-control list:
  which address may read which handle), and the log of emitted events.
\<close>

record ledger =
  p_documentCount :: uint256
  p_documents :: "uint256 \<Rightarrow> Document"
  p_collaborators :: "uint256 \<Rightarrow> address \<Rightarrow> bool"
  p_collaboratorList :: "uint256 \<Rightarrow> address list"
  acl :: "euint64 \<Rightarrow> address \<Rightarrow> bool"
  events :: "event list"

text \<open>The transaction context: \<^verbatim>\<open>msg.sender\<close> and \<^verbatim>\<open>block.timestamp\<close>.\<close>

record tx_ctx =
  msg_sender :: address
  block_timestamp :: uint256

text \<open>
  The FHE library is not part of the repository; what the contract uses of it is taken as an
  environment. \<open>FHE_fromExternal\<close> is \<^verbatim>\<open>FHE.fromExternal(handle, proof)\<close> for a given
  sender: the verified handle, or \<open>None\<close> when the call reverts. \<open>address_this\<close> is the
  contract's own address, the target of \<^verbatim>\<open>FHE.allowThis\<close>.
\<close>

record env =
  FHE_fromExternal :: "euint64 \<Rightarrow> bytes \<Rightarrow> address \<Rightarrow> euint64 option"
  address_this :: address

definition FHE_allow :: "euint64 \<Rightarrow> address \<Rightarrow> ledger \<Rightarrow> ledger" where
  "FHE_allow h a s = s\<lparr>acl := (acl s)(h := (acl s h)(a := True))\<rparr>"

definition FHE_allowThis :: "env \<Rightarrow> euint64 \<Rightarrow> ledger \<Rightarrow> ledger" where
  "FHE_allowThis e h s = FHE_allow h (address_this e) s"

definition FHE_isSenderAllowed :: "tx_ctx \<Rightarrow> euint64 \<Rightarrow> ledger \<Rightarrow> bool" where
  "FHE_isSenderAllowed ctx h s = acl s h (msg_sender ctx)"

definition emit :: "event \<Rightarrow> ledger \<Rightarrow> ledger" where
  "emit ev s = s\<lparr>events := events s @ [ev]\<rparr>"

text \<open>Checked addition of Solidity 0.8: \<open>None\<close> is the panic on overflow.\<close>

definition checked_add :: "uint256 \<Rightarrow> uint256 \<Rightarrow> uint256 option" where
  "checked_add a b = (if unat a + unat b < 2 ^ 256 then Some (a + b) else None)"

definition createDocument ::
  "env \<Rightarrow> tx_ctx \<Rightarrow> string \<Rightarrow> euint64 \<Rightarrow> bytes \<Rightarrow> ledger \<Rightarrow> error + (uint256 \<times> ledger)" where
  "createDocument e ctx nm extSecret inputProof s =
    (if length nm = 0 then Inl EmptyName
     else case FHE_fromExternal e extSecret inputProof (msg_sender ctx) of
       None \<Rightarrow> Inl FromExternalReverted
     | Some secret \<Rightarrow>
        (case checked_add (p_documentCount s) 1 of
           None \<Rightarrow> Inl ArithmeticPanic
         | Some documentId \<Rightarrow>
            Inr (documentId,
              emit (DocumentCreated documentId (msg_sender ctx) nm)
               (FHE_allowThis e secret
                (FHE_allow secret (msg_sender ctx)
                 (s\<lparr>p_documentCount := documentId,
                    p_documents := (p_documents s)(documentId :=
                      \<lparr>name = nm, encryptedBody = [], encryptedSecret = secret,
                       owner = msg_sender ctx, updatedAt = block_timestamp ctx\<rparr>),
                    p_collaborators := (p_collaborators s)(documentId :=
                      (p_collaborators s documentId)(msg_sender ctx := True)),
                    p_collaboratorList := (p_collaboratorList s)(documentId :=
                      p_collaboratorList s documentId @ [msg_sender ctx])\<rparr>))))))"

definition grantAccess :: "tx_ctx \<Rightarrow> uint256 \<Rightarrow> address \<Rightarrow> ledger \<Rightarrow> error + ledger" where
  "grantAccess ctx documentId grantee s =
    (let doc = p_documents s documentId in
     if owner doc = 0 then Inl (DocumentNotFound documentId)
     else if owner doc \<noteq> msg_sender ctx then Inl (NotDocumentOwner (msg_sender ctx))
     else if grantee = 0 then Inl InvalidAddress
     else
       Inr (emit (AccessGranted documentId grantee)
         (FHE_allow (encryptedSecret doc) grantee
           (if \<not> p_collaborators s documentId grantee
            then s\<lparr>p_collaborators := (p_collaborators s)(documentId :=
                      (p_collaborators s documentId)(grantee := True)),
                   p_collaboratorList := (p_collaboratorList s)(documentId :=
                      p_collaboratorList s documentId @ [grantee])\<rparr>
            else s))))"

definition updateDocumentBody :: "tx_ctx \<Rightarrow> uint256 \<Rightarrow> string \<Rightarrow> ledger \<Rightarrow> error + ledger" where
  "updateDocumentBody ctx documentId body s =
    (let doc = p_documents s documentId in
     if owner doc = 0 then Inl (DocumentNotFound documentId)
     else if \<not> FHE_isSenderAllowed ctx (encryptedSecret doc) s
       then Inl (Unauthorized (msg_sender ctx))
     else
       Inr (emit (DocumentUpdated documentId (msg_sender ctx) body)
         (FHE_allow (encryptedSecret doc) (msg_sender ctx)
           (s\<lparr>p_documents := (p_documents s)(documentId :=
                 doc\<lparr>encryptedBody := body, updatedAt := block_timestamp ctx\<rparr>)\<rparr>))))"

definition getDocument :: "uint256 \<Rightarrow> ledger \<Rightarrow> error + Document" where
  "getDocument documentId s =
    (let doc = p_documents s documentId in
     if owner doc = 0 then Inl (DocumentNotFound documentId) else Inr doc)"

definition getDocuments :: "ledger \<Rightarrow> Document list" where
  "getDocuments s = map (\<lambda>i. p_documents s (of_nat i + 1)) [0 ..< unat (p_documentCount s)]"

definition isAuthorized :: "uint256 \<Rightarrow> address \<Rightarrow> ledger \<Rightarrow> error + bool" where
  "isAuthorized documentId user s =
    (let doc = p_documents s documentId in
     if owner doc = 0 then Inl (DocumentNotFound documentId)
     else Inr (p_collaborators s documentId user))"

definition getCollaborators :: "uint256 \<Rightarrow> ledger \<Rightarrow> error + address list" where
  "getCollaborators documentId s =
    (let doc = p_documents s documentId in
     if owner doc = 0 then Inl (DocumentNotFound documentId)
     else Inr (p_collaboratorList s documentId))"

definition documentCount :: "ledger \<Rightarrow> uint256" where
  "documentCount s = p_documentCount s"

subsection \<open>Runs of the ledger\<close>

text \<open>
  The storage of a freshly deployed contract: every slot zero. The permissions of the
  external store start empty.
\<close>

definition zero_document :: Document where
  "zero_document = \<lparr>name = [], encryptedBody = [], encryptedSecret = 0, owner = 0, updatedAt = 0\<rparr>"

definition deployed :: ledger where
  "deployed = \<lparr>p_documentCount = 0, p_documents = (\<lambda>_. zero_document),
     p_collaborators = (\<lambda>_ _. False), p_collaboratorList = (\<lambda>_. []),
     acl = (\<lambda>_ _. False), events = []\<rparr>"

text \<open>
  A run is a list of actions. A \<open>Call\<close> is a transaction to one of the three mutating
  functions; a reverted transaction leaves the state as it was. \<open>AuthorityChange\<close> is a
  step of the environment: the external store's permissions are replaced by any others
  (other contracts and users write to the same store), the contract's storage is untouched.
\<close>

datatype call =
    CreateDocument string euint64 bytes
  | GrantAccess uint256 address
  | UpdateDocumentBody uint256 string

datatype action =
    Call tx_ctx call
  | AuthorityChange "euint64 \<Rightarrow> address \<Rightarrow> bool"

fun step :: "env \<Rightarrow> ledger \<Rightarrow> action \<Rightarrow> ledger" where
  "step e s (Call ctx (CreateDocument nm ext pf)) =
     (case createDocument e ctx nm ext pf s of Inl _ \<Rightarrow> s | Inr (_, s') \<Rightarrow> s')"
| "step e s (Call ctx (GrantAccess i g)) =
     (case grantAccess ctx i g s of Inl _ \<Rightarrow> s | Inr s' \<Rightarrow> s')"
| "step e s (Call ctx (UpdateDocumentBody i b)) =
     (case updateDocumentBody ctx i b s of Inl _ \<Rightarrow> s | Inr s' \<Rightarrow> s')"
| "step e s (AuthorityChange a) = s\<lparr>acl := a\<rparr>"

definition run :: "env \<Rightarrow> ledger \<Rightarrow> action list \<Rightarrow> ledger" where
  "run e s acts = foldl (step e) s acts"

text \<open>
  On the EVM the sender of a transaction is an account or a contract, never the zero
  address. \<open>senders_nonzero\<close> says so of every call of a run.
\<close>

fun sender_nonzero :: "action \<Rightarrow> bool" where
  "sender_nonzero (Call ctx _) = (msg_sender ctx \<noteq> 0)"
| "sender_nonzero (AuthorityChange _) = True"

definition senders_nonzero :: "action list \<Rightarrow> bool" where
  "senders_nonzero acts = list_all sender_nonzero acts"

text \<open>
  The identities that one action adds to the authorization of document \<open>d\<close> through the
  ledger: the creator when the action creates \<open>d\<close>, the grantee when it is a successful
  \<^verbatim>\<open>grantAccess\<close> on \<open>d\<close>. \<open>auth_log\<close> collects them along a run, in order.
\<close>

fun authorizes :: "env \<Rightarrow> ledger \<Rightarrow> action \<Rightarrow> uint256 \<Rightarrow> address list" where
  "authorizes e s (Call ctx (CreateDocument nm ext pf)) d =
     (case createDocument e ctx nm ext pf s of
        Inl _ \<Rightarrow> []
      | Inr (i, _) \<Rightarrow> if i = d then [msg_sender ctx] else [])"
| "authorizes e s (Call ctx (GrantAccess i g)) d =
     (case grantAccess ctx i g s of
        Inl _ \<Rightarrow> []
      | Inr _ \<Rightarrow> if i = d then [g] else [])"
| "authorizes e s (Call ctx (UpdateDocumentBody i b)) d = []"
| "authorizes e s (AuthorityChange a) d = []"

fun auth_log :: "env \<Rightarrow> ledger \<Rightarrow> action list \<Rightarrow> uint256 \<Rightarrow> address list" where
  "auth_log e s [] d = []"
| "auth_log e s (a # as) d = authorizes e s a d @ auth_log e (step e s a) as d"

text \<open>The first occurrence of every element, in order.\<close>

definition first_occurrences :: "'a list \<Rightarrow> 'a list" where
  "first_occurrences xs = rev (remdups (rev xs))"

text \<open>A document exists when its owner is not the zero address, the contract's own test.\<close>

definition document_exists :: "ledger \<Rightarrow> uint256 \<Rightarrow> bool" where
  "document_exists s i = (owner (p_documents s i) \<noteq> 0)"

text \<open>
  A blank name in the ordinary sense, the one the front end applies with
  \<^verbatim>\<open>!nameInput.trim()\<close>: nothing but white space (space, tab, line feed, vertical tab,
  form feed, carriage return). The empty name is blank too.
\<close>

definition white_space_byte :: "char \<Rightarrow> bool" where
  "white_space_byte c = ((of_char c :: nat) = 0x20 \<or> (0x09 \<le> (of_char c :: nat) \<and> (of_char c :: nat) \<le> 0x0D))"

definition blank_name :: "string \<Rightarrow> bool" where
  "blank_name nm = list_all white_space_byte nm"

subsection \<open>Invariants of the ledger\<close>

text \<open>
  \<open>in_range\<close>: the id lies between 1 and the document counter. \<open>ledger_inv\<close> holds of
  every state a run reaches; \<open>nonzero_inv\<close> holds of those reached by senders other
  than the zero address.
\<close>

definition in_range :: "ledger \<Rightarrow> uint256 \<Rightarrow> bool" where
  "in_range s i = (1 \<le> i \<and> i \<le> p_documentCount s)"

definition ledger_inv :: "ledger \<Rightarrow> bool" where
  "ledger_inv s =
    ((\<forall>i. document_exists s i \<longrightarrow> in_range s i)
   \<and> (\<forall>i. \<not> in_range s i \<longrightarrow> p_collaboratorList s i = [])
   \<and> (\<forall>i. set (p_collaboratorList s i) = {a. p_collaborators s i a})
   \<and> (\<forall>i. distinct (p_collaboratorList s i))
   \<and> (\<forall>i. document_exists s i \<longrightarrow> p_collaborators s i (owner (p_documents s i))))"

definition nonzero_inv :: "ledger \<Rightarrow> bool" where
  "nonzero_inv s =
    ((\<forall>i. in_range s i \<longrightarrow> document_exists s i)
   \<and> (\<forall>i a. p_collaborators s i a \<longrightarrow> a \<noteq> 0))"

section \<open>The symmetric codec (crypto.ts)\<close>

text \<open>
  A JavaScript string is a sequence of UTF-16 code units; \<^verbatim>\<open>length\<close> counts code units.
  \<open>js\<close> writes an ASCII literal as such a string.
\<close>

type_synonym jschar = "16 word"
type_synonym jsstring = "jschar list"

definition js :: "string \<Rightarrow> jsstring" where
  "js s = map (\<lambda>c. of_nat (of_char c)) s"

subsection \<open>TextEncoder and TextDecoder\<close>

text \<open>
  \<^verbatim>\<open>new TextEncoder().encode(s)\<close>: the string is read as code points, a surrogate that
  is not part of a pair becoming U+FFFD, and each code point is written in UTF-8.
\<close>

definition is_high_surrogate :: "jschar \<Rightarrow> bool" where
  "is_high_surrogate c = (0xD800 \<le> unat c \<and> unat c \<le> 0xDBFF)"

definition is_low_surrogate :: "jschar \<Rightarrow> bool" where
  "is_low_surrogate c = (0xDC00 \<le> unat c \<and> unat c \<le> 0xDFFF)"

definition scalar_of_unit :: "jschar \<Rightarrow> nat" where
  "scalar_of_unit c = (if is_high_surrogate c \<or> is_low_surrogate c then 0xFFFD else unat c)"

fun code_points :: "jsstring \<Rightarrow> nat list" where
  "code_points [] = []"
| "code_points [c] = [scalar_of_unit c]"
| "code_points (c # d # cs) =
     (if is_high_surrogate c \<and> is_low_surrogate d
      then (0x10000 + (unat c - 0xD800) * 0x400 + (unat d - 0xDC00)) # code_points cs
      else scalar_of_unit c # code_points (d # cs))"

definition utf8_of_code_point :: "nat \<Rightarrow> bytes" where
  "utf8_of_code_point cp =
    (if cp < 0x80 then [of_nat cp]
     else if cp < 0x800 then [of_nat (0xC0 + cp div 0x40), of_nat (0x80 + cp mod 0x40)]
     else if cp < 0x10000 then
       [of_nat (0xE0 + cp div 0x1000), of_nat (0x80 + cp div 0x40 mod 0x40),
        of_nat (0x80 + cp mod 0x40)]
     else
       [of_nat (0xF0 + cp div 0x40000), of_nat (0x80 + cp div 0x1000 mod 0x40),
        of_nat (0x80 + cp div 0x40 mod 0x40), of_nat (0x80 + cp mod 0x40)])"

definition TextEncoder_encode :: "jsstring \<Rightarrow> bytes" where
  "TextEncoder_encode s = concat (map utf8_of_code_point (code_points s))"

text \<open>
  \<^verbatim>\<open>new TextDecoder().decode(bytes)\<close>: the UTF-8 decoder of the Encoding Standard, not
  fatal (a malformed sequence gives U+FFFD) and with \<^verbatim>\<open>ignoreBOM\<close> false, which removes
  a byte order mark U+FEFF at the start of the output. \<open>utf8_lead\<close> is the decoder on a
  byte read with no sequence open: a code point, or the state for the bytes to come
  (code point so far, bytes still needed, bounds of the next byte).
\<close>

definition utf8_lead :: "nat \<Rightarrow> nat + (nat \<times> nat \<times> nat \<times> nat)" where
  "utf8_lead b =
    (if b \<le> 0x7F then Inl b
     else if 0xC2 \<le> b \<and> b \<le> 0xDF then Inr (b mod 0x20, 1, 0x80, 0xBF)
     else if 0xE0 \<le> b \<and> b \<le> 0xEF then
       Inr (b mod 0x10, 2, if b = 0xE0 then 0xA0 else 0x80, if b = 0xED then 0x9F else 0xBF)
     else if 0xF0 \<le> b \<and> b \<le> 0xF4 then
       Inr (b mod 0x8, 3, if b = 0xF0 then 0x90 else 0x80, if b = 0xF4 then 0x8F else 0xBF)
     else Inl 0xFFFD)"

fun utf8_decoder :: "nat \<Rightarrow> nat \<Rightarrow> nat \<Rightarrow> nat \<Rightarrow> bytes \<Rightarrow> nat list" where
  "utf8_decoder cp needed lower upper [] = (if needed = 0 then [] else [0xFFFD])"
| "utf8_decoder cp needed lower upper (b # bs) =
    (if needed = 0 then
       (case utf8_lead (unat b) of
          Inl c \<Rightarrow> c # utf8_decoder 0 0 0x80 0xBF bs
        | Inr (cp', needed', lower', upper') \<Rightarrow> utf8_decoder cp' needed' lower' upper' bs)
     else if unat b < lower \<or> upper < unat b then
       0xFFFD #
       (case utf8_lead (unat b) of
          Inl c \<Rightarrow> c # utf8_decoder 0 0 0x80 0xBF bs
        | Inr (cp', needed', lower', upper') \<Rightarrow> utf8_decoder cp' needed' lower' upper' bs)
     else if needed = 1 then (cp * 0x40 + unat b mod 0x40) # utf8_decoder 0 0 0x80 0xBF bs
     else utf8_decoder (cp * 0x40 + unat b mod 0x40) (needed - 1) 0x80 0xBF bs)"

definition strip_bom :: "nat list \<Rightarrow> nat list" where
  "strip_bom cps = (case cps of [] \<Rightarrow> [] | c # cs \<Rightarrow> if c = 0xFEFF then cs else c # cs)"

definition units_of_code_point :: "nat \<Rightarrow> jsstring" where
  "units_of_code_point cp =
    (if cp < 0x10000 then [of_nat cp]
     else [of_nat (0xD800 + (cp - 0x10000) div 0x400), of_nat (0xDC00 + (cp - 0x10000) mod 0x400)])"

definition TextDecoder_decode :: "bytes \<Rightarrow> jsstring" where
  "TextDecoder_decode bs = concat (map units_of_code_point (strip_bom (utf8_decoder 0 0 0x80 0xBF bs)))"

subsection \<open>Hex\<close>

text \<open>
  \<^verbatim>\<open>toHex\<close>: every byte as \<^verbatim>\<open>b.toString(16).padStart(2, '0')\<close>, joined.
\<close>

definition hex_digit :: "nat \<Rightarrow> jschar" where
  "hex_digit n = (if n < 10 then of_nat (0x30 + n) else of_nat (0x61 + (n - 10)))"

definition toString16 :: "nat \<Rightarrow> jsstring" where
  "toString16 n = (if n < 16 then [hex_digit n] else [hex_digit (n div 16), hex_digit (n mod 16)])"

definition padStart :: "nat \<Rightarrow> jschar \<Rightarrow> jsstring \<Rightarrow> jsstring" where
  "padStart n c s = replicate (n - length s) c @ s"

definition toHex :: "bytes \<Rightarrow> jsstring" where
  "toHex buffer = concat (map (\<lambda>b. padStart 2 0x30 (toString16 (unat b))) buffer)"

text \<open>
  \<^verbatim>\<open>hex.match(/.{1,2}/g) ?? []\<close>: from left to right, at each position the longest run of
  one or two code units that are not line terminators (\<^verbatim>\<open>.\<close> matches none of LF, CR,
  U+2028, U+2029); a line terminator is skipped.
\<close>

definition is_line_terminator :: "jschar \<Rightarrow> bool" where
  "is_line_terminator c = (c = 0x0A \<or> c = 0x0D \<or> c = 0x2028 \<or> c = 0x2029)"

fun match_pairs :: "jsstring \<Rightarrow> jsstring list" where
  "match_pairs [] = []"
| "match_pairs [c] = (if is_line_terminator c then [] else [[c]])"
| "match_pairs (c # d # cs) =
     (if is_line_terminator c then match_pairs (d # cs)
      else if is_line_terminator d then [c] # match_pairs cs
      else [c, d] # match_pairs cs)"

text \<open>
  \<^verbatim>\<open>parseInt(s, 16)\<close>: leading white space is dropped, then a sign, then a prefix
  \<^verbatim>\<open>0x\<close> or \<^verbatim>\<open>0X\<close>; the longest run of hex digits that follows is the value, and what
  comes after it is ignored. No digit at all gives NaN, here \<open>None\<close>.
\<close>

definition is_white_space :: "jschar \<Rightarrow> bool" where
  "is_white_space c =
    (c = 0x09 \<or> c = 0x0A \<or> c = 0x0B \<or> c = 0x0C \<or> c = 0x0D \<or> c = 0x20 \<or> c = 0xA0
     \<or> c = 0x1680 \<or> (0x2000 \<le> c \<and> c \<le> 0x200A) \<or> c = 0x2028 \<or> c = 0x2029
     \<or> c = 0x202F \<or> c = 0x205F \<or> c = 0x3000 \<or> c = 0xFEFF)"

definition digit16 :: "jschar \<Rightarrow> nat option" where
  "digit16 c =
    (if 0x30 \<le> c \<and> c \<le> 0x39 then Some (unat c - 0x30)
     else if 0x61 \<le> c \<and> c \<le> 0x66 then Some (unat c - 0x61 + 10)
     else if 0x41 \<le> c \<and> c \<le> 0x46 then Some (unat c - 0x41 + 10)
     else None)"

definition is_hex_digit :: "jschar \<Rightarrow> bool" where
  "is_hex_digit c = (digit16 c \<noteq> None)"

fun digits_value :: "nat \<Rightarrow> jsstring \<Rightarrow> nat" where
  "digits_value acc [] = acc"
| "digits_value acc (c # cs) =
     (case digit16 c of None \<Rightarrow> acc | Some v \<Rightarrow> digits_value (acc * 16 + v) cs)"

definition strip_sign :: "jsstring \<Rightarrow> int \<times> jsstring" where
  "strip_sign s =
    (case s of
       [] \<Rightarrow> (1, [])
     | c # cs \<Rightarrow> if c = 0x2D then (- 1, cs) else if c = 0x2B then (1, cs) else (1, c # cs))"

definition strip_0x :: "jsstring \<Rightarrow> jsstring" where
  "strip_0x s =
    (case s of
       c # d # cs \<Rightarrow> if c = 0x30 \<and> (d = 0x78 \<or> d = 0x58) then cs else s
     | _ \<Rightarrow> s)"

definition parseInt16 :: "jsstring \<Rightarrow> int option" where
  "parseInt16 s =
    (let (sign, s1) = strip_sign (dropWhile is_white_space s);
         z = strip_0x s1
     in case z of
          [] \<Rightarrow> None
        | c # cs \<Rightarrow> if is_hex_digit c then Some (sign * int (digits_value 0 z)) else None)"

text \<open>
  A \<^verbatim>\<open>Uint8Array\<close> built from numbers takes each modulo 256, and NaN as 0.
\<close>

definition to_uint8 :: "int option \<Rightarrow> 8 word" where
  "to_uint8 v = (case v of None \<Rightarrow> 0 | Some i \<Rightarrow> of_int i)"

datatype codec_error = MalformedPayload | InvalidEncoding | AuthenticationFailure

definition fromHex :: "jsstring \<Rightarrow> codec_error + bytes" where
  "fromHex hex =
    (if length hex mod 2 \<noteq> 0 then Inl InvalidEncoding
     else Inr (map (\<lambda>byte. to_uint8 (parseInt16 byte)) (match_pairs hex)))"

subsection \<open>Encryption and decryption of a body\<close>

text \<open>
  WebCrypto is outside the repository: SHA-256 and AES-GCM are taken as parameters.
  \<open>aes_gcm_decrypt\<close> returns \<open>None\<close> when the promise rejects (the tag does not verify).
\<close>

record webcrypto =
  digest_sha256 :: "bytes \<Rightarrow> bytes"
  aes_gcm_encrypt :: "bytes \<Rightarrow> bytes \<Rightarrow> bytes \<Rightarrow> bytes"
  aes_gcm_decrypt :: "bytes \<Rightarrow> bytes \<Rightarrow> bytes \<Rightarrow> bytes option"

definition deriveKey :: "webcrypto \<Rightarrow> jsstring \<Rightarrow> bytes" where
  "deriveKey wc secret = digest_sha256 wc (TextEncoder_encode secret)"

text \<open>
  \<^verbatim>\<open>encryptBody\<close>; \<open>iv\<close> is the value of \<^verbatim>\<open>crypto.getRandomValues(new Uint8Array(12))\<close>.
\<close>

definition encryptBody :: "webcrypto \<Rightarrow> bytes \<Rightarrow> jsstring \<Rightarrow> jsstring \<Rightarrow> jsstring" where
  "encryptBody wc iv secret body =
    (let key = deriveKey wc secret;
         encrypted = aes_gcm_encrypt wc key iv (TextEncoder_encode body)
     in toHex iv @ [0x3A] @ toHex encrypted)"

text \<open>
  \<^verbatim>\<open>payload.split(':')\<close> cuts at every colon; the destructuring takes the first two
  pieces, the second being undefined (\<open>None\<close>) when there is no colon.
\<close>

fun split :: "jschar \<Rightarrow> jsstring \<Rightarrow> jsstring list" where
  "split sep [] = [[]]"
| "split sep (c # cs) =
     (if c = sep then [] # split sep cs
      else (case split sep cs of p # ps \<Rightarrow> (c # p) # ps | [] \<Rightarrow> [[c]]))"

definition first_two :: "jsstring list \<Rightarrow> jsstring \<times> jsstring option" where
  "first_two parts =
    (case parts of
       [] \<Rightarrow> ([], None)
     | p # ps \<Rightarrow> (p, case ps of [] \<Rightarrow> None | q # _ \<Rightarrow> Some q))"

definition decryptBody :: "webcrypto \<Rightarrow> jsstring \<Rightarrow> jsstring \<Rightarrow> codec_error + jsstring" where
  "decryptBody wc secret payload =
    (if payload = [] then Inr []
     else case first_two (split 0x3A payload) of
       (ivHex, None) \<Rightarrow> Inl MalformedPayload
     | (ivHex, Some dataHex) \<Rightarrow>
        if ivHex = [] \<or> dataHex = [] then Inl MalformedPayload
        else
          (let key = deriveKey wc secret in
           case fromHex ivHex of
             Inl err \<Rightarrow> Inl err
           | Inr iv \<Rightarrow>
              (case fromHex dataHex of
                 Inl err \<Rightarrow> Inl err
               | Inr data \<Rightarrow>
                  (case aes_gcm_decrypt wc key iv data of
                     None \<Rightarrow> Inl AuthenticationFailure
                   | Some decrypted \<Rightarrow> Inr (TextDecoder_decode decrypted)))))"

text \<open>The bytes that \<^verbatim>\<open>fromHex\<close> returns when it does not throw.\<close>

definition hex_bytes :: "jsstring \<Rightarrow> bytes" where
  "hex_bytes hex = map (\<lambda>byte. to_uint8 (parseInt16 byte)) (match_pairs hex)"

text \<open>
  Unicode scalar values, and the strings in which every surrogate is part of a pair: the
  strings that UTF-8 can hold.
\<close>

definition is_scalar :: "nat \<Rightarrow> bool" where
  "is_scalar cp = (cp < 0x110000 \<and> \<not> (0xD800 \<le> cp \<and> cp \<le> 0xDFFF))"

fun well_formed :: "jsstring \<Rightarrow> bool" where
  "well_formed [] = True"
| "well_formed [c] = (\<not> is_high_surrogate c \<and> \<not> is_low_surrogate c)"
| "well_formed (c # d # cs) =
     (if is_high_surrogate c \<and> is_low_surrogate d then well_formed cs
      else \<not> is_high_surrogate c \<and> \<not> is_low_surrogate c \<and> well_formed (d # cs))"

section \<open>The session (VaultApp.tsx)\<close>

text \<open>
  The part of the component's state that \<^verbatim>\<open>updateBody\<close> reads and writes: the selected
  id, the documents last fetched with \<^verbatim>\<open>getDocuments\<close>, the decrypted secret, the draft
  and the decrypted body, the status line, the \<^verbatim>\<open>isUpdating\<close> flag, and what
  \<^verbatim>\<open>console.error\<close> has logged.
\<close>

record session =
  selectedId :: "nat option"
  documents :: "Document list"
  clearSecret :: jsstring
  bodyDraft :: jsstring
  decryptedBody :: jsstring
  status :: "string option"
  isUpdating :: bool
  console :: "error list"

text \<open>
  \<^verbatim>\<open>selectedId ? documents[selectedId - 1] : undefined\<close>; the number 0 is falsy, and an
  index outside the array gives \<^verbatim>\<open>undefined\<close>.
\<close>

definition activeDocument :: "session \<Rightarrow> Document option" where
  "activeDocument ss =
    (case selectedId ss of
       None \<Rightarrow> None
     | Some n \<Rightarrow>
        if n = 0 then None
        else if n - 1 < length (documents ss) then Some (documents ss ! (n - 1))
        else None)"

definition activeDocumentIndex :: "session \<Rightarrow> uint256" where
  "activeDocumentIndex ss = (case selectedId ss of None \<Rightarrow> 0 | Some n \<Rightarrow> of_nat n)"

text \<open>
  A JavaScript string passed to the contract as a Solidity \<^verbatim>\<open>string\<close> is written in
  UTF-8.
\<close>

definition abi_string :: "jsstring \<Rightarrow> string" where
  "abi_string s = map (\<lambda>b. char_of (unat b)) (TextEncoder_encode s)"

text \<open>
  \<^verbatim>\<open>updateBody\<close>. \<open>signer\<close> is the wallet's account (\<open>None\<close>: no signer), \<open>now\<close> the
  timestamp of the block that takes the transaction, \<open>iv\<close> the nonce drawn by
  \<^verbatim>\<open>encryptBody\<close>. The result is the state of the component and of the ledger when the
  function returns; \<open>Inl\<close> would be an error thrown to the caller. Every error raised
  inside the \<^verbatim>\<open>try\<close> block is caught, logged and replaced by one status line.
\<close>

definition updateBody ::
  "webcrypto \<Rightarrow> bytes \<Rightarrow> address option \<Rightarrow> uint256 \<Rightarrow> session \<Rightarrow> ledger
    \<Rightarrow> error + (session \<times> ledger)" where
  "updateBody wc iv signer now ss s =
    (if activeDocument ss = None \<or> clearSecret ss = []
     then Inr (ss\<lparr>status := Some ''Decrypt the secret before saving.''\<rparr>, s)
     else case signer of
       None \<Rightarrow> Inr (ss\<lparr>status := Some ''No signer available.''\<rparr>, s)
     | Some account \<Rightarrow>
        (let encryptedPayload = encryptBody wc iv (clearSecret ss) (bodyDraft ss) in
         case updateDocumentBody \<lparr>msg_sender = account, block_timestamp = now\<rparr>
                (activeDocumentIndex ss) (abi_string encryptedPayload) s of
           Inl err \<Rightarrow>
             Inr (ss\<lparr>status := Some ''Update failed. Confirm you have ACL to this document.'',
                     isUpdating := False, console := console ss @ [err]\<rparr>, s)
         | Inr s' \<Rightarrow>
             Inr (ss\<lparr>decryptedBody := bodyDraft ss,
                     status := Some ''Document updated on-chain.'',
                     documents := getDocuments s',
                     isUpdating := False\<rparr>, s')))"

section \<open>Sample data\<close>

text \<open>
  Three accounts, an environment whose \<^verbatim>\<open>FHE.fromExternal\<close> accepts every input and
  returns the handle it is given, and runs in the manner of the contract's tests: Alice
  creates a document, grants Bob access, creates a second document from the same
  encrypted input.
\<close>

definition alice :: address where "alice = 0xA11CE"

definition bob :: address where "bob = 0xB0B"

definition carol :: address where "carol = 0xCA501"

definition demo_env :: env where
  "demo_env = \<lparr>FHE_fromExternal = (\<lambda>h p a. Some h), address_this = 0xEC\<rparr>"

definition sent_by :: "address \<Rightarrow> uint256 \<Rightarrow> tx_ctx" where
  "sent_by a t = \<lparr>msg_sender = a, block_timestamp = t\<rparr>"

definition demo_created :: "action list" where
  "demo_created = [Call (sent_by alice 100) (CreateDocument ''Doc One'' 7 [])]"

definition demo_shared :: "action list" where
  "demo_shared = demo_created @ [Call (sent_by alice 150) (GrantAccess 1 bob)]"

definition demo_two :: "action list" where
  "demo_two = demo_shared @ [Call (sent_by alice 160) (CreateDocument ''Doc One'' 7 [])]"

definition demo_regrant :: "action list" where
  "demo_regrant = demo_shared @
     [Call (sent_by alice 170) (GrantAccess 1 carol),
      Call (sent_by bob 180) (UpdateDocumentBody 1 ''ciphertext''),
      Call (sent_by alice 190) (GrantAccess 1 bob)]"

text \<open>
  A stand-in for WebCrypto, to run the codec on examples. The key is the message itself;
  encryption adds the sum of the key's bytes to every byte and appends a 16-byte tag that
  starts with the sums of the key and of the nonce; decryption checks the tag.
\<close>

definition demo_tag :: "bytes \<Rightarrow> bytes \<Rightarrow> bytes" where
  "demo_tag key iv = [sum_list key, sum_list iv, 2, 3, 4, 5, 6, 7, 8, 9, 10, 11, 12, 13, 14, 15]"

definition demo_crypto :: webcrypto where
  "demo_crypto =
    \<lparr>digest_sha256 = (\<lambda>m. m),
     aes_gcm_encrypt = (\<lambda>key iv pt. map (\<lambda>b. b + sum_list key) pt @ demo_tag key iv),
     aes_gcm_decrypt = (\<lambda>key iv ct.
        if 16 \<le> length ct \<and> drop (length ct - 16) ct = demo_tag key iv
        then Some (map (\<lambda>b. b - sum_list key) (take (length ct - 16) ct)) else None)\<rparr>"

definition demo_iv :: bytes where
  "demo_iv = [10, 1, 2, 3, 4, 5, 6, 7, 8, 9, 10, 11]"

definition demo_secret :: jsstring where
  "demo_secret = js ''123456789''"

definition demo_session :: session where
  "demo_session =
    \<lparr>selectedId = Some 1,
     documents = [\<lparr>name = ''Doc One'', encryptedBody = [], encryptedSecret = 7,
                   owner = alice, updatedAt = 100\<rparr>],
     clearSecret = demo_secret, bodyDraft = js ''hi'', decryptedBody = [],
     status = None, isUpdating = False, console = []\<rparr>"

section \<open>Properties of the ledger\<close>

lemmas ledger_defs = createDocument_def grantAccess_def updateDocumentBody_def
  FHE_allow_def FHE_allowThis_def FHE_isSenderAllowed_def emit_def

lemma checked_add_one_unat:
  assumes "checked_add c 1 = Some d"
  shows "d = c + 1" and "unat d = unat c + 1"
proof -
  from assms have b: "unat c + 1 < 2 ^ 256" and d: "d = c + 1"
    by (auto simp: checked_add_def split: if_splits)
  show "d = c + 1" by (rule d)
  have "unat (c + 1) = (unat c + 1) mod 2 ^ 256"
    by (simp add: unat_word_ariths)
  with b d show "unat d = unat c + 1" by simp
qed

lemma checked_add_one_range:
  assumes "checked_add c 1 = Some d"
  shows "(1 \<le> i \<and> i \<le> d) = ((1 \<le> i \<and> i \<le> c) \<or> i = d)"
proof -
  have u: "unat d = unat c + 1" using assms by (rule checked_add_one_unat)
  have eq: "(i = d) = (unat i = unat d)" by (simp add: word_unat_eq_iff)
  show ?thesis unfolding eq word_le_nat_alt u by auto
qed

lemma checked_add_one_fresh:
  assumes "checked_add c 1 = Some d"
  shows "\<not> (1 \<le> d \<and> d \<le> c)" and "1 \<le> d"
proof -
  have u: "unat d = unat c + 1" using assms by (rule checked_add_one_unat)
  show "\<not> (1 \<le> d \<and> d \<le> c)" unfolding word_le_nat_alt u by simp
  show "1 \<le> d" unfolding word_le_nat_alt u by simp
qed

lemma ledger_inv_deployed: "ledger_inv deployed"
  by (simp add: ledger_inv_def deployed_def document_exists_def zero_document_def in_range_def)

lemma createDocument_inv:
  assumes inv: "ledger_inv s" and c: "createDocument e ctx nm ext pf s = Inr (d, s')"
  shows "ledger_inv s'"
proof -
  from c obtain secret where
    ca: "checked_add (p_documentCount s) 1 = Some d" and
    s': "s' = emit (DocumentCreated d (msg_sender ctx) nm)
               (FHE_allowThis e secret
                (FHE_allow secret (msg_sender ctx)
                 (s\<lparr>p_documentCount := d,
                    p_documents := (p_documents s)(d :=
                      \<lparr>name = nm, encryptedBody = [], encryptedSecret = secret,
                       owner = msg_sender ctx, updatedAt = block_timestamp ctx\<rparr>),
                    p_collaborators := (p_collaborators s)(d :=
                      (p_collaborators s d)(msg_sender ctx := True)),
                    p_collaboratorList := (p_collaboratorList s)(d :=
                      p_collaboratorList s d @ [msg_sender ctx])\<rparr>)))"
    by (auto simp: createDocument_def split: if_splits option.splits)
  have rng: "\<And>i. in_range s' i = (in_range s i \<or> i = d)"
    using checked_add_one_range [OF ca] by (simp add: in_range_def s' ledger_defs)
  have fresh: "\<not> in_range s d"
    using checked_add_one_fresh(1) [OF ca] by (simp add: in_range_def)
  from inv fresh have empty: "p_collaboratorList s d = []"
    by (simp add: ledger_inv_def)
  from inv have "{a. p_collaborators s d a} = set (p_collaboratorList s d)"
    by (simp add: ledger_inv_def)
  with empty have noc: "\<And>a. \<not> p_collaborators s d a"
    by simp
  show ?thesis
    unfolding ledger_inv_def
  proof (intro conjI allI impI)
    fix i assume ex: "document_exists s' i"
    show "in_range s' i"
    proof (cases "i = d")
      case True
      then show ?thesis by (simp add: rng)
    next
      case False
      with ex have "document_exists s i"
        by (simp add: s' ledger_defs document_exists_def)
      with inv show ?thesis by (simp add: rng ledger_inv_def)
    qed
  next
    fix i assume "\<not> in_range s' i"
    then have "i \<noteq> d" and "\<not> in_range s i" by (simp_all add: rng)
    with inv show "p_collaboratorList s' i = []"
      by (simp add: s' ledger_defs ledger_inv_def)
  next
    fix i show "set (p_collaboratorList s' i) = {a. p_collaborators s' i a}"
      using inv empty noc by (auto simp: s' ledger_defs ledger_inv_def)
  next
    fix i show "distinct (p_collaboratorList s' i)"
      using inv empty by (auto simp: s' ledger_defs ledger_inv_def)
  next
    fix i assume "document_exists s' i"
    then show "p_collaborators s' i (owner (p_documents s' i))"
      using inv by (auto simp: s' ledger_defs document_exists_def ledger_inv_def split: if_splits)
  qed
qed

lemma grantAccess_inv:
  assumes inv: "ledger_inv s" and g: "grantAccess ctx d grantee s = Inr s'"
  shows "ledger_inv s'"
proof -
  from g have ex: "document_exists s d"
    by (auto simp: grantAccess_def document_exists_def Let_def split: if_splits)
  from g have docs: "p_documents s' = p_documents s" and cnt: "p_documentCount s' = p_documentCount s"
    by (auto simp: ledger_defs Let_def split: if_splits)
  from g have coll: "p_collaborators s' = (p_collaborators s)(d := (p_collaborators s d)(grantee := True))"
    by (auto simp: ledger_defs Let_def fun_eq_iff split: if_splits)
  from g have lst: "p_collaboratorList s' = (p_collaboratorList s)(d :=
      (if p_collaborators s d grantee then p_collaboratorList s d else p_collaboratorList s d @ [grantee]))"
    by (auto simp: ledger_defs Let_def fun_eq_iff split: if_splits)
  from inv ex have rd: "in_range s d" by (simp add: ledger_inv_def)
  show ?thesis
    unfolding ledger_inv_def
  proof (intro conjI allI impI)
    fix i assume "document_exists s' i"
    then show "in_range s' i"
      using inv by (simp add: document_exists_def docs in_range_def cnt ledger_inv_def)
  next
    fix i assume "\<not> in_range s' i"
    then show "p_collaboratorList s' i = []"
      using inv rd by (auto simp: in_range_def cnt lst ledger_inv_def)
  next
    fix i show "set (p_collaboratorList s' i) = {a. p_collaborators s' i a}"
      using inv by (auto simp: lst coll ledger_inv_def)
  next
    fix i show "distinct (p_collaboratorList s' i)"
      using inv by (auto simp: lst ledger_inv_def)
  next
    fix i assume "document_exists s' i"
    then show "p_collaborators s' i (owner (p_documents s' i))"
      using inv by (auto simp: document_exists_def docs coll ledger_inv_def)
  qed
qed

lemma updateDocumentBody_frame:
  assumes "updateDocumentBody ctx d body s = Inr s'"
  shows "p_collaborators s' = p_collaborators s"
    and "p_collaboratorList s' = p_collaboratorList s"
    and "p_documentCount s' = p_documentCount s"
    and "owner (p_documents s' i) = owner (p_documents s i)"
  using assms by (auto simp: ledger_defs Let_def split: if_splits)

lemma updateDocumentBody_inv:
  assumes inv: "ledger_inv s" and u: "updateDocumentBody ctx d body s = Inr s'"
  shows "ledger_inv s'"
  using inv updateDocumentBody_frame [OF u]
  by (simp add: ledger_inv_def document_exists_def in_range_def)

lemma step_inv: "ledger_inv s \<Longrightarrow> ledger_inv (step e s a)"
proof (cases a)
  case (Call ctx c)
  assume inv: "ledger_inv s"
  show ?thesis
  proof (cases c)
    case (CreateDocument nm ext pf)
    with Call inv show ?thesis
      by (auto split: sum.splits dest: createDocument_inv)
  next
    case (GrantAccess i g)
    with Call inv show ?thesis
      by (auto split: sum.splits dest: grantAccess_inv)
  next
    case (UpdateDocumentBody i b)
    with Call inv show ?thesis
      by (auto split: sum.splits dest: updateDocumentBody_inv)
  qed
next
  case (AuthorityChange x)
  assume "ledger_inv s"
  with AuthorityChange show ?thesis
    by (simp add: ledger_inv_def document_exists_def in_range_def)
qed

lemma run_Cons: "run e s (a # as) = run e (step e s a) as"
  by (simp add: run_def)

lemma run_inv: "ledger_inv s \<Longrightarrow> ledger_inv (run e s acts)"
proof (induction acts arbitrary: s)
  case Nil
  then show ?case by (simp add: run_def)
next
  case (Cons a acts)
  then show ?case by (simp add: run_Cons step_inv)
qed

lemma nonzero_inv_deployed: "nonzero_inv deployed"
  by (auto simp: nonzero_inv_def deployed_def in_range_def word_le_nat_alt)

lemma createDocument_nonzero:
  assumes inv: "nonzero_inv s" and c: "createDocument e ctx nm ext pf s = Inr (d, s')"
    and nz: "msg_sender ctx \<noteq> 0"
  shows "nonzero_inv s'"
proof -
  from c have ca: "checked_add (p_documentCount s) 1 = Some d"
    by (auto simp: createDocument_def split: if_splits option.splits)
  from c have cnt: "p_documentCount s' = d"
    and docs: "\<And>i. owner (p_documents s' i) = (if i = d then msg_sender ctx else owner (p_documents s i))"
    and coll: "\<And>i a. p_collaborators s' i a = (p_collaborators s i a \<or> i = d \<and> a = msg_sender ctx)"
    by (auto simp: ledger_defs split: if_splits option.splits)
  have rng: "\<And>i. in_range s' i = (in_range s i \<or> i = d)"
    using checked_add_one_range [OF ca] by (simp add: in_range_def cnt)
  show ?thesis
    using inv nz by (auto simp: nonzero_inv_def rng document_exists_def docs coll)
qed

lemma grantAccess_nonzero:
  assumes inv: "nonzero_inv s" and g: "grantAccess ctx d grantee s = Inr s'"
  shows "nonzero_inv s'"
proof -
  from g have docs: "p_documents s' = p_documents s" and cnt: "p_documentCount s' = p_documentCount s"
    and gz: "grantee \<noteq> 0"
    and coll: "\<And>i a. p_collaborators s' i a = (p_collaborators s i a \<or> i = d \<and> a = grantee)"
    by (auto simp: ledger_defs Let_def split: if_splits)
  show ?thesis
    using inv gz by (auto simp: nonzero_inv_def in_range_def cnt document_exists_def docs coll)
qed

lemma updateDocumentBody_nonzero:
  assumes inv: "nonzero_inv s" and u: "updateDocumentBody ctx d body s = Inr s'"
  shows "nonzero_inv s'"
  using inv updateDocumentBody_frame [OF u]
  by (simp add: nonzero_inv_def document_exists_def in_range_def)

lemma step_nonzero: "nonzero_inv s \<Longrightarrow> sender_nonzero a \<Longrightarrow> nonzero_inv (step e s a)"
proof (cases a)
  case (Call ctx c)
  assume inv: "nonzero_inv s" and nz: "sender_nonzero a"
  show ?thesis
  proof (cases c)
    case (CreateDocument nm ext pf)
    with Call inv nz show ?thesis
      by (auto split: sum.splits dest: createDocument_nonzero)
  next
    case (GrantAccess i g)
    with Call inv show ?thesis
      by (auto split: sum.splits dest: grantAccess_nonzero)
  next
    case (UpdateDocumentBody i b)
    with Call inv show ?thesis
      by (auto split: sum.splits dest: updateDocumentBody_nonzero)
  qed
next
  case (AuthorityChange x)
  assume "nonzero_inv s"
  with AuthorityChange show ?thesis
    by (simp add: nonzero_inv_def document_exists_def in_range_def)
qed

lemma run_nonzero: "nonzero_inv s \<Longrightarrow> senders_nonzero acts \<Longrightarrow> nonzero_inv (run e s acts)"
proof (induction acts arbitrary: s)
  case Nil
  then show ?case by (simp add: run_def)
next
  case (Cons a acts)
  then show ?case by (simp add: run_Cons step_nonzero senders_nonzero_def)
qed

subsection \<open>The collaborator list is the log of first authorizations\<close>

lemma first_occurrences_distinct: "distinct xs \<Longrightarrow> first_occurrences xs = xs"
  by (simp add: first_occurrences_def distinct_remdups_id)

lemma remdups_append_member: "x \<in> set ys \<Longrightarrow> remdups (xs @ x # ys) = remdups (xs @ ys)"
  by (induction xs) auto

lemma first_occurrences_repeat:
  "x \<in> set xs \<Longrightarrow> first_occurrences (xs @ x # ys) = first_occurrences (xs @ ys)"
  by (simp add: first_occurrences_def remdups_append_member)

lemma step_collaboratorList:
  assumes inv: "ledger_inv s"
  shows "p_collaboratorList (step e s a) d =
     p_collaboratorList s d @ filter (\<lambda>x. x \<notin> set (p_collaboratorList s d)) (authorizes e s a d)"
proof (cases a)
  case (Call ctx c)
  show ?thesis
  proof (cases c)
    case (CreateDocument nm ext pf)
    show ?thesis
    proof (cases "createDocument e ctx nm ext pf s")
      case (Inl err)
      with Call CreateDocument show ?thesis by simp
    next
      case (Inr r)
      obtain i s' where r: "r = (i, s')" by (cases r)
      from Inr r have ca: "checked_add (p_documentCount s) 1 = Some i"
        by (auto simp: createDocument_def split: if_splits option.splits)
      from Inr r have lst: "p_collaboratorList s' =
          (p_collaboratorList s)(i := p_collaboratorList s i @ [msg_sender ctx])"
        by (auto simp: ledger_defs split: if_splits option.splits)
      have "\<not> in_range s i"
        using checked_add_one_fresh(1) [OF ca] by (simp add: in_range_def)
      with inv have "p_collaboratorList s i = []" by (simp add: ledger_inv_def)
      with Call CreateDocument Inr r lst show ?thesis by simp
    qed
  next
    case (GrantAccess i g)
    show ?thesis
    proof (cases "grantAccess ctx i g s")
      case (Inl err)
      with Call GrantAccess show ?thesis by simp
    next
      case (Inr s')
      then have lst: "p_collaboratorList s' = (p_collaboratorList s)(i :=
          (if p_collaborators s i g then p_collaboratorList s i else p_collaboratorList s i @ [g]))"
        by (auto simp: ledger_defs Let_def fun_eq_iff split: if_splits)
      from inv have "(g \<in> set (p_collaboratorList s i)) = p_collaborators s i g"
        by (simp add: ledger_inv_def)
      with Call GrantAccess Inr lst show ?thesis by simp
    qed
  next
    case (UpdateDocumentBody i b)
    with Call show ?thesis
      by (auto split: sum.splits dest: updateDocumentBody_frame(2))
  qed
next
  case (AuthorityChange x)
  then show ?thesis by simp
qed

lemma authorizes_length: "length (authorizes e s a d) \<le> 1"
proof (cases a)
  case (Call ctx c)
  then show ?thesis by (cases c) (auto split: sum.splits)
next
  case (AuthorityChange x)
  then show ?thesis by simp
qed

lemma run_collaboratorList:
  "ledger_inv s \<Longrightarrow>
   p_collaboratorList (run e s acts) d = first_occurrences (p_collaboratorList s d @ auth_log e s acts d)"
proof (induction acts arbitrary: s)
  case Nil
  then show ?case by (simp add: run_def first_occurrences_distinct ledger_inv_def)
next
  case (Cons a acts)
  let ?L = "p_collaboratorList s d"
  let ?A = "authorizes e s a d"
  let ?R = "auth_log e (step e s a) acts d"
  have inv': "ledger_inv (step e s a)" using Cons.prems by (rule step_inv)
  have "p_collaboratorList (run e s (a # acts)) d
      = first_occurrences (p_collaboratorList (step e s a) d @ ?R)"
    by (simp add: run_Cons Cons.IH [OF inv'])
  also have "\<dots> = first_occurrences ((?L @ filter (\<lambda>x. x \<notin> set ?L) ?A) @ ?R)"
    by (simp add: step_collaboratorList [OF Cons.prems])
  also have "\<dots> = first_occurrences (?L @ ?A @ ?R)"
  proof (cases ?A)
    case Nil
    then show ?thesis by simp
  next
    case (Cons x xs)
    with authorizes_length [of e s a d] have A: "?A = [x]" by simp
    show ?thesis
      by (cases "x \<in> set ?L") (simp_all add: A first_occurrences_repeat)
  qed
  finally show ?case by simp
qed

lemmas view_defs = getDocument_def isAuthorized_def getCollaborators_def documentCount_def

lemmas demo_defs = alice_def bob_def carol_def demo_env_def sent_by_def deployed_def zero_document_def
  run_def document_exists_def demo_created_def demo_shared_def demo_two_def checked_add_def
  senders_nonzero_def

text \<open>
  Claim C1. For a document that exists, \<^verbatim>\<open>updateDocumentBody\<close> fails with
  \<open>Unauthorized\<close> exactly when the external store does not allow the sender to read the
  document's confidential handle. When it does, the call succeeds, the stored body is the
  new ciphertext as given, \<open>updatedAt\<close> is the block's timestamp, every other document is
  untouched and the sender's permission is asserted again. The ledger's own collaborator
  set and list play no part: replacing them by any others does not change whether the
  call succeeds.
\<close>

theorem updateDocumentBody_delegates:
  assumes "document_exists s i"
  shows "(\<not> acl s (encryptedSecret (p_documents s i)) (msg_sender ctx) \<longrightarrow>
            updateDocumentBody ctx i body s = Inl (Unauthorized (msg_sender ctx)))
       \<and> (acl s (encryptedSecret (p_documents s i)) (msg_sender ctx) \<longrightarrow>
            (\<exists>s'. updateDocumentBody ctx i body s = Inr s'
               \<and> p_documents s' i =
                   (p_documents s i)\<lparr>encryptedBody := body, updatedAt := block_timestamp ctx\<rparr>
               \<and> getDocument i s' =
                   Inr ((p_documents s i)\<lparr>encryptedBody := body, updatedAt := block_timestamp ctx\<rparr>)
               \<and> (\<forall>j. j \<noteq> i \<longrightarrow> p_documents s' j = p_documents s j)
               \<and> acl s' (encryptedSecret (p_documents s i)) (msg_sender ctx)))
       \<and> isl (updateDocumentBody ctx i body (s\<lparr>p_collaborators := c, p_collaboratorList := l\<rparr>))
           = isl (updateDocumentBody ctx i body s)"
  using assms by (simp add: ledger_defs document_exists_def view_defs Let_def)

theorem updateDocumentBody_delegates_witness:
  "document_exists (run demo_env deployed demo_created) 1
   \<and> updateDocumentBody (sent_by bob 200) 1 ''ciphertext'' (run demo_env deployed demo_created)
       = Inl (Unauthorized bob)
   \<and> (\<exists>s'. updateDocumentBody (sent_by bob 200) 1 ''ciphertext'' (run demo_env deployed demo_shared)
             = Inr s'
          \<and> getDocument 1 s' = Inr \<lparr>name = ''Doc One'', encryptedBody = ''ciphertext'',
               encryptedSecret = 7, owner = alice, updatedAt = 200\<rparr>)"
proof -
  have e1: "document_exists (run demo_env deployed demo_created) 1"
    by (simp add: demo_defs ledger_defs)
  have e2: "document_exists (run demo_env deployed demo_shared) 1"
    by (simp add: demo_defs ledger_defs)
  have n1: "\<not> acl (run demo_env deployed demo_created)
      (encryptedSecret (p_documents (run demo_env deployed demo_created) 1)) (msg_sender (sent_by bob 200))"
    by (simp add: demo_defs ledger_defs)
  have a2: "acl (run demo_env deployed demo_shared)
      (encryptedSecret (p_documents (run demo_env deployed demo_shared) 1)) (msg_sender (sent_by bob 200))"
    by (simp add: demo_defs ledger_defs)
  have d2: "(p_documents (run demo_env deployed demo_shared) 1)
      \<lparr>encryptedBody := ''ciphertext'', updatedAt := block_timestamp (sent_by bob 200)\<rparr>
     = \<lparr>name = ''Doc One'', encryptedBody = ''ciphertext'',
               encryptedSecret = 7, owner = alice, updatedAt = 200\<rparr>"
    by (simp add: demo_defs ledger_defs)
  have b: "msg_sender (sent_by bob 200) = bob" by (simp add: sent_by_def)
  from updateDocumentBody_delegates [OF e1, of "sent_by bob 200" "''ciphertext''"] n1 b
  have r1: "updateDocumentBody (sent_by bob 200) 1 ''ciphertext'' (run demo_env deployed demo_created)
       = Inl (Unauthorized bob)" by simp
  from updateDocumentBody_delegates [OF e2, of "sent_by bob 200" "''ciphertext''"] a2
  obtain s' where "updateDocumentBody (sent_by bob 200) 1 ''ciphertext''
        (run demo_env deployed demo_shared) = Inr s'"
    and "getDocument 1 s' = Inr ((p_documents (run demo_env deployed demo_shared) 1)
      \<lparr>encryptedBody := ''ciphertext'', updatedAt := block_timestamp (sent_by bob 200)\<rparr>)"
    by blast
  then have r2: "\<exists>s'. updateDocumentBody (sent_by bob 200) 1 ''ciphertext'' (run demo_env deployed demo_shared)
             = Inr s'
          \<and> getDocument 1 s' = Inr \<lparr>name = ''Doc One'', encryptedBody = ''ciphertext'',
               encryptedSecret = 7, owner = alice, updatedAt = 200\<rparr>"
    unfolding d2 by blast
  from e1 r1 r2 show ?thesis by simp
qed

text \<open>
  Claim C4. In every state reached from deployment by calls whose senders are not the
  zero address (with any changes of the external store in between), the documents that
  exist are exactly those with ids \<open>1, \<dots>, documentCount\<close>; and a successful
  \<^verbatim>\<open>createDocument\<close> returns \<open>documentCount + 1\<close> (without wrap-around), an id that no
  document had, and leaves every other document as it was.
\<close>

theorem document_ids_dense:
  assumes "senders_nonzero acts" and "s = run e deployed acts"
  shows "{i. document_exists s i} = {i. 1 \<le> i \<and> i \<le> documentCount s}
       \<and> (\<forall>ctx nm ext pf i s'. createDocument e ctx nm ext pf s = Inr (i, s') \<longrightarrow>
            i = documentCount s + 1 \<and> unat i = unat (documentCount s) + 1
          \<and> \<not> document_exists s i \<and> documentCount s' = i
          \<and> (\<forall>j. j \<noteq> i \<longrightarrow> p_documents s' j = p_documents s j))"
proof -
  have inv: "ledger_inv s"
    unfolding assms(2) by (rule run_inv [OF ledger_inv_deployed])
  have nz: "nonzero_inv s"
    unfolding assms(2) by (rule run_nonzero [OF nonzero_inv_deployed assms(1)])
  have "document_exists s i = (1 \<le> i \<and> i \<le> documentCount s)" for i
    using inv nz unfolding ledger_inv_def nonzero_inv_def in_range_def documentCount_def
    by blast
  then have dense: "{i. document_exists s i} = {i. 1 \<le> i \<and> i \<le> documentCount s}"
    by simp
  have create: "i = documentCount s + 1 \<and> unat i = unat (documentCount s) + 1
          \<and> \<not> document_exists s i \<and> documentCount s' = i
          \<and> (\<forall>j. j \<noteq> i \<longrightarrow> p_documents s' j = p_documents s j)"
    if c: "createDocument e ctx nm ext pf s = Inr (i, s')" for ctx nm ext pf i s'
  proof -
    from c have ca: "checked_add (p_documentCount s) 1 = Some i"
      by (auto simp: createDocument_def split: if_splits option.splits)
    from c have fr: "p_documentCount s' = i" "\<And>j. j \<noteq> i \<Longrightarrow> p_documents s' j = p_documents s j"
      by (auto simp: ledger_defs split: if_splits option.splits)
    have "\<not> in_range s i"
      using checked_add_one_fresh(1) [OF ca] by (simp add: in_range_def)
    with inv have "\<not> document_exists s i" by (auto simp: ledger_inv_def)
    with checked_add_one_unat [OF ca] fr show ?thesis
      by (simp add: documentCount_def)
  qed
  from create have "\<forall>ctx nm ext pf i s'. createDocument e ctx nm ext pf s = Inr (i, s') \<longrightarrow>
            i = documentCount s + 1 \<and> unat i = unat (documentCount s) + 1
          \<and> \<not> document_exists s i \<and> documentCount s' = i
          \<and> (\<forall>j. j \<noteq> i \<longrightarrow> p_documents s' j = p_documents s j)"
    by (intro allI impI)
  with dense show ?thesis by (rule conjI)
qed

theorem document_ids_dense_witness:
  "senders_nonzero demo_shared
   \<and> {i. document_exists (run demo_env deployed demo_shared) i} = {i. 1 \<le> i \<and> i \<le> 1}
   \<and> (\<exists>s'. createDocument demo_env (sent_by alice 160) ''Doc One'' 7 []
              (run demo_env deployed demo_shared) = Inr (2, s'))"
proof -
  have sn: "senders_nonzero demo_shared"
    by (simp add: demo_defs)
  have cnt: "documentCount (run demo_env deployed demo_shared) = 1"
    by (simp add: demo_defs ledger_defs view_defs)
  have "\<exists>i s'. createDocument demo_env (sent_by alice 160) ''Doc One'' 7 []
              (run demo_env deployed demo_shared) = Inr (i, s')"
    by (simp add: demo_defs ledger_defs)
  then obtain i s' where c: "createDocument demo_env (sent_by alice 160) ''Doc One'' 7 []
              (run demo_env deployed demo_shared) = Inr (i, s')" by blast
  note th = document_ids_dense [OF sn refl, of demo_env]
  from th have "{i. document_exists (run demo_env deployed demo_shared) i}
      = {i. 1 \<le> i \<and> i \<le> documentCount (run demo_env deployed demo_shared)}" by (rule conjunct1)
  then have d: "{i. document_exists (run demo_env deployed demo_shared) i} = {i. 1 \<le> i \<and> i \<le> 1}"
    unfolding cnt .
  from th c have "i = documentCount (run demo_env deployed demo_shared) + 1" by blast
  then have "i = 2" unfolding cnt by simp
  with c have "\<exists>s'. createDocument demo_env (sent_by alice 160) ''Doc One'' 7 []
              (run demo_env deployed demo_shared) = Inr (2, s')" by blast
  with sn d show ?thesis by blast
qed

text \<open>
  Claim C5. In every state reached from deployment by any run of \<^verbatim>\<open>createDocument\<close>,
  \<^verbatim>\<open>grantAccess\<close> and \<^verbatim>\<open>updateDocumentBody\<close> calls (and changes of the external store),
  for every document that exists: the owner is in the collaborator set and in the
  collaborator list, the list holds exactly the members of the set, without duplicates,
  and it is the sequence of identities the ledger authorized for the document, each at
  its first authorization.
\<close>

theorem collaborators_invariant:
  assumes "s = run e deployed acts" and "document_exists s d"
  shows "owner (p_documents s d) \<in> set (p_collaboratorList s d)
       \<and> p_collaborators s d (owner (p_documents s d))
       \<and> isAuthorized d (owner (p_documents s d)) s = Inr True
       \<and> set (p_collaboratorList s d) = {a. p_collaborators s d a}
       \<and> distinct (p_collaboratorList s d)
       \<and> p_collaboratorList s d = first_occurrences (auth_log e deployed acts d)
       \<and> getCollaborators d s = Inr (first_occurrences (auth_log e deployed acts d))"
proof -
  have inv: "ledger_inv s"
    unfolding assms(1) by (rule run_inv [OF ledger_inv_deployed])
  from inv assms(2) have own: "p_collaborators s d (owner (p_documents s d))"
    by (simp add: ledger_inv_def)
  from inv have st: "set (p_collaboratorList s d) = {a. p_collaborators s d a}"
    and di: "distinct (p_collaboratorList s d)"
    by (simp_all add: ledger_inv_def)
  have "p_collaboratorList s d = first_occurrences (p_collaboratorList deployed d @ auth_log e deployed acts d)"
    unfolding assms(1) by (rule run_collaboratorList [OF ledger_inv_deployed])
  then have ord: "p_collaboratorList s d = first_occurrences (auth_log e deployed acts d)"
    by (simp add: deployed_def)
  from assms(2) have ex: "owner (p_documents s d) \<noteq> 0"
    by (simp add: document_exists_def)
  from own st have mem: "owner (p_documents s d) \<in> set (p_collaboratorList s d)"
    by simp
  from ex own have ia: "isAuthorized d (owner (p_documents s d)) s = Inr True"
    by (simp add: isAuthorized_def)
  from ex ord have gc: "getCollaborators d s = Inr (first_occurrences (auth_log e deployed acts d))"
    by (simp add: getCollaborators_def)
  from mem own ia st di ord gc show ?thesis by (intro conjI)
qed

lemma demo_regrant_log: "auth_log demo_env deployed demo_regrant 1 = [alice, bob, carol, bob]"
  by (simp add: demo_regrant_def demo_defs ledger_defs)

theorem collaborators_invariant_witness:
  "document_exists (run demo_env deployed demo_regrant) 1
   \<and> owner (p_documents (run demo_env deployed demo_regrant) 1) = alice
   \<and> auth_log demo_env deployed demo_regrant 1 = [alice, bob, carol, bob]
   \<and> getCollaborators 1 (run demo_env deployed demo_regrant) = Inr [alice, bob, carol]
   \<and> isAuthorized 1 alice (run demo_env deployed demo_regrant) = Inr True"
proof -
  have ex: "document_exists (run demo_env deployed demo_regrant) 1"
    by (simp add: demo_regrant_def demo_defs ledger_defs)
  have ow: "owner (p_documents (run demo_env deployed demo_regrant) 1) = alice"
    by (simp add: demo_regrant_def demo_defs ledger_defs)
  have fo: "first_occurrences [alice, bob, carol, bob] = [alice, bob, carol]"
    by (simp add: first_occurrences_def alice_def bob_def carol_def)
  note th = collaborators_invariant [OF refl ex]
  from th have "getCollaborators 1 (run demo_env deployed demo_regrant)
      = Inr (first_occurrences (auth_log demo_env deployed demo_regrant 1))" by blast
  then have gc: "getCollaborators 1 (run demo_env deployed demo_regrant) = Inr [alice, bob, carol]"
    unfolding demo_regrant_log fo .
  from th have "isAuthorized 1 (owner (p_documents (run demo_env deployed demo_regrant) 1))
      (run demo_env deployed demo_regrant) = Inr True" by blast
  then have ia: "isAuthorized 1 alice (run demo_env deployed demo_regrant) = Inr True"
    unfolding ow .
  from ex ow demo_regrant_log gc ia show ?thesis by (intro conjI)
qed

text \<open>
  Claim C6. For a document that exists, \<^verbatim>\<open>grantAccess\<close> by any sender other than the
  owner fails with \<open>NotDocumentOwner\<close>, whatever the grantee and whatever the sender's own
  authorization.
\<close>

theorem grantAccess_not_delegable:
  assumes "document_exists s i" and "msg_sender ctx \<noteq> owner (p_documents s i)"
  shows "grantAccess ctx i grantee s = Inl (NotDocumentOwner (msg_sender ctx))"
  using assms by (auto simp: grantAccess_def document_exists_def Let_def)

theorem grantAccess_not_delegable_witness:
  "document_exists (run demo_env deployed demo_shared) 1
   \<and> isAuthorized 1 bob (run demo_env deployed demo_shared) = Inr True
   \<and> acl (run demo_env deployed demo_shared) 7 bob
   \<and> msg_sender (sent_by bob 200) \<noteq> owner (p_documents (run demo_env deployed demo_shared) 1)
   \<and> grantAccess (sent_by bob 200) 1 carol (run demo_env deployed demo_shared)
       = Inl (NotDocumentOwner bob)"
proof -
  have ex: "document_exists (run demo_env deployed demo_shared) 1"
    by (simp add: demo_defs ledger_defs)
  have ia: "isAuthorized 1 bob (run demo_env deployed demo_shared) = Inr True"
    by (simp add: demo_defs ledger_defs isAuthorized_def)
  have al: "acl (run demo_env deployed demo_shared) 7 bob"
    by (simp add: demo_defs ledger_defs)
  have ne: "msg_sender (sent_by bob 200) \<noteq> owner (p_documents (run demo_env deployed demo_shared) 1)"
    by (simp add: demo_defs ledger_defs)
  have b: "msg_sender (sent_by bob 200) = bob" by (simp add: sent_by_def)
  from grantAccess_not_delegable [OF ex ne, of carol]
  have "grantAccess (sent_by bob 200) 1 carol (run demo_env deployed demo_shared)
       = Inl (NotDocumentOwner bob)" unfolding b .
  with ex ia al ne show ?thesis by (intro conjI)
qed

text \<open>
  Claim C7. In a reachable state, when the owner grants access to an identity that is
  already in the document's collaborator set, the call succeeds, the collaborator list and
  set and the documents are unchanged, and the identity's permission on the confidential
  handle is asserted again.
\<close>

theorem grantAccess_idempotent:
  assumes "senders_nonzero acts" and "s = run e deployed acts"
    and "document_exists s i" and "p_collaborators s i g"
    and "msg_sender ctx = owner (p_documents s i)"
  shows "\<exists>s'. grantAccess ctx i g s = Inr s'
           \<and> getCollaborators i s' = getCollaborators i s
           \<and> p_collaboratorList s' = p_collaboratorList s
           \<and> p_collaborators s' = p_collaborators s
           \<and> p_documents s' = p_documents s
           \<and> acl s' (encryptedSecret (p_documents s i)) g"
proof -
  have "nonzero_inv s"
    unfolding assms(2) by (rule run_nonzero [OF nonzero_inv_deployed assms(1)])
  with assms(4) have "g \<noteq> 0" by (auto simp: nonzero_inv_def)
  with assms(3,4,5) show ?thesis
    by (simp add: ledger_defs getCollaborators_def document_exists_def Let_def)
qed

theorem grantAccess_idempotent_witness:
  "senders_nonzero demo_shared
   \<and> document_exists (run demo_env deployed demo_shared) 1
   \<and> p_collaborators (run demo_env deployed demo_shared) 1 bob
   \<and> getCollaborators 1 (run demo_env deployed demo_shared) = Inr [alice, bob]
   \<and> (\<exists>s'. grantAccess (sent_by alice 300) 1 bob (run demo_env deployed demo_shared) = Inr s'
          \<and> getCollaborators 1 s' = Inr [alice, bob])"
proof -
  have sn: "senders_nonzero demo_shared" by (simp add: demo_defs)
  have ex: "document_exists (run demo_env deployed demo_shared) 1"
    by (simp add: demo_defs ledger_defs)
  have co: "p_collaborators (run demo_env deployed demo_shared) 1 bob"
    by (simp add: demo_defs ledger_defs)
  have ow: "msg_sender (sent_by alice 300) = owner (p_documents (run demo_env deployed demo_shared) 1)"
    by (simp add: demo_defs ledger_defs)
  have gc: "getCollaborators 1 (run demo_env deployed demo_shared) = Inr [alice, bob]"
    by (simp add: demo_defs ledger_defs getCollaborators_def)
  from grantAccess_idempotent [OF sn refl ex co ow]
  obtain s' where "grantAccess (sent_by alice 300) 1 bob (run demo_env deployed demo_shared) = Inr s'"
    and "getCollaborators 1 s' = getCollaborators 1 (run demo_env deployed demo_shared)"
    by blast
  then have "\<exists>s'. grantAccess (sent_by alice 300) 1 bob (run demo_env deployed demo_shared) = Inr s'
          \<and> getCollaborators 1 s' = Inr [alice, bob]"
    unfolding gc by blast
  with sn ex co gc show ?thesis by (intro conjI)
qed

text \<open>
  Claim C8, as the code has it. \<^verbatim>\<open>createDocument\<close> fails with \<open>EmptyName\<close> if and only
  if the name has no bytes; a name of white space only is not empty. For every name that
  is not empty, when the encrypted input verifies and the counter does not overflow, it
  creates a new document under the next id with that name, whatever names the existing
  documents have, and leaves them as they were.
\<close>

theorem createDocument_empty_name:
  "(createDocument e ctx nm ext pf s = Inl EmptyName) = (nm = [])
   \<and> (nm \<noteq> [] \<and> FHE_fromExternal e ext pf (msg_sender ctx) = Some secret
        \<and> unat (p_documentCount s) + 1 < 2 ^ 256 \<longrightarrow>
       (\<exists>s'. createDocument e ctx nm ext pf s = Inr (p_documentCount s + 1, s')
          \<and> unat (p_documentCount s + 1) = unat (p_documentCount s) + 1
          \<and> documentCount s' = p_documentCount s + 1
          \<and> p_documents s' (p_documentCount s + 1) =
               \<lparr>name = nm, encryptedBody = [], encryptedSecret = secret,
                owner = msg_sender ctx, updatedAt = block_timestamp ctx\<rparr>
          \<and> (\<forall>j. j \<noteq> p_documentCount s + 1 \<longrightarrow> p_documents s' j = p_documents s j)))"
proof (intro conjI impI)
  show "(createDocument e ctx nm ext pf s = Inl EmptyName) = (nm = [])"
    by (simp add: createDocument_def split: option.splits)
next
  assume a: "nm \<noteq> [] \<and> FHE_fromExternal e ext pf (msg_sender ctx) = Some secret
        \<and> unat (p_documentCount s) + 1 < 2 ^ 256"
  then have ca: "checked_add (p_documentCount s) 1 = Some (p_documentCount s + 1)"
    by (simp add: checked_add_def)
  have u: "unat (p_documentCount s + 1) = unat (p_documentCount s) + 1"
    using ca by (rule checked_add_one_unat)
  from a ca u show "\<exists>s'. createDocument e ctx nm ext pf s = Inr (p_documentCount s + 1, s')
          \<and> unat (p_documentCount s + 1) = unat (p_documentCount s) + 1
          \<and> documentCount s' = p_documentCount s + 1
          \<and> p_documents s' (p_documentCount s + 1) =
               \<lparr>name = nm, encryptedBody = [], encryptedSecret = secret,
                owner = msg_sender ctx, updatedAt = block_timestamp ctx\<rparr>
          \<and> (\<forall>j. j \<noteq> p_documentCount s + 1 \<longrightarrow> p_documents s' j = p_documents s j)"
    by (simp add: ledger_defs documentCount_def)
qed

theorem createDocument_empty_name_witness:
  "createDocument demo_env (sent_by alice 100) [] 7 [] deployed = Inl EmptyName
   \<and> createDocument demo_env (sent_by alice 100) ''Doc One'' 7 [] deployed \<noteq> Inl EmptyName
   \<and> (\<exists>s'. createDocument demo_env (sent_by alice 160) ''Doc One'' 7 []
              (run demo_env deployed demo_shared) = Inr (2, s')
          \<and> name (p_documents s' 2) = ''Doc One''
          \<and> name (p_documents s' 1) = ''Doc One'')"
proof -
  note th = createDocument_empty_name [of demo_env _ _ 7 "[]"]
  from th [of "sent_by alice 100" "[]" deployed]
  have r1: "createDocument demo_env (sent_by alice 100) [] 7 [] deployed = Inl EmptyName"
    by simp
  from th [of "sent_by alice 100" "''Doc One''" deployed]
  have r2: "createDocument demo_env (sent_by alice 100) ''Doc One'' 7 [] deployed \<noteq> Inl EmptyName"
    by simp
  have cnt: "p_documentCount (run demo_env deployed demo_shared) = 1"
    by (simp add: demo_defs ledger_defs)
  have fx: "FHE_fromExternal demo_env 7 [] (msg_sender (sent_by alice 160)) = Some 7"
    by (simp add: demo_env_def)
  have d1: "name (p_documents (run demo_env deployed demo_shared) 1) = ''Doc One''"
    by (simp add: demo_defs ledger_defs)
  from th [of "sent_by alice 160" "''Doc One''" "run demo_env deployed demo_shared" 7] fx
  obtain s' where c: "createDocument demo_env (sent_by alice 160) ''Doc One'' 7 []
              (run demo_env deployed demo_shared) = Inr (2, s')"
    and n2: "name (p_documents s' 2) = ''Doc One''"
    and fr: "\<forall>j. j \<noteq> 2 \<longrightarrow> p_documents s' j = p_documents (run demo_env deployed demo_shared) j"
    unfolding cnt by auto
  from fr have "p_documents s' 1 = p_documents (run demo_env deployed demo_shared) 1"
    by simp
  with d1 have "name (p_documents s' 1) = ''Doc One''" by simp
  with r1 r2 c n2 show ?thesis by blast
qed

text \<open>
  The name of one space is blank, and \<^verbatim>\<open>createDocument\<close> does not fail with
  \<open>EmptyName\<close> on it: it creates document 1 and stores the name as given.
\<close>

theorem createDocument_blank_name_counterexample:
  "blank_name '' ''
   \<and> createDocument demo_env (sent_by alice 100) '' '' 7 [] deployed \<noteq> Inl EmptyName
   \<and> fst (projr (createDocument demo_env (sent_by alice 100) '' '' 7 [] deployed)) = 1
   \<and> name (p_documents
        (snd (projr (createDocument demo_env (sent_by alice 100) '' '' 7 [] deployed))) 1) = '' ''"
proof (intro conjI)
  show "blank_name '' ''"
    by (simp add: blank_name_def white_space_byte_def)
  show "createDocument demo_env (sent_by alice 100) '' '' 7 [] deployed \<noteq> Inl EmptyName"
    by (simp add: demo_defs ledger_defs)
  show "fst (projr (createDocument demo_env (sent_by alice 100) '' '' 7 [] deployed)) = 1"
    by (simp add: demo_defs ledger_defs)
  show "name (p_documents
        (snd (projr (createDocument demo_env (sent_by alice 100) '' '' 7 [] deployed))) 1) = '' ''"
    by (simp add: demo_defs ledger_defs)
qed

text \<open>
  Claim C10. A successful \<^verbatim>\<open>updateDocumentBody\<close> leaves the collaborator set and list of
  every document as they were: \<^verbatim>\<open>isAuthorized\<close> and \<^verbatim>\<open>getCollaborators\<close> answer the same
  before and after. A sender who is allowed by the external store only, not in the
  collaborator set, commits the body and is still not authorized in the ledger's eyes.
\<close>

theorem updateDocumentBody_keeps_acl:
  assumes "updateDocumentBody ctx i body s = Inr s'"
  shows "(\<forall>d u. isAuthorized d u s' = isAuthorized d u s)
       \<and> (\<forall>d. getCollaborators d s' = getCollaborators d s)
       \<and> p_collaborators s' = p_collaborators s
       \<and> p_collaboratorList s' = p_collaboratorList s
       \<and> (\<not> p_collaborators s i (msg_sender ctx) \<longrightarrow>
            isAuthorized i (msg_sender ctx) s' = Inr False)"
proof -
  note fr = updateDocumentBody_frame [OF assms]
  from assms have ex: "owner (p_documents s i) \<noteq> 0"
    by (auto simp: updateDocumentBody_def Let_def split: if_splits)
  from fr ex show ?thesis
    by (simp add: isAuthorized_def getCollaborators_def)
qed

theorem updateDocumentBody_keeps_acl_witness:
  "isAuthorized 2 bob (run demo_env deployed demo_two) = Inr False
   \<and> getCollaborators 2 (run demo_env deployed demo_two) = Inr [alice]
   \<and> (\<exists>s'. updateDocumentBody (sent_by bob 200) 2 ''ciphertext'' (run demo_env deployed demo_two)
              = Inr s'
          \<and> getDocument 2 s' = Inr \<lparr>name = ''Doc One'', encryptedBody = ''ciphertext'',
               encryptedSecret = 7, owner = alice, updatedAt = 200\<rparr>
          \<and> isAuthorized 2 bob s' = Inr False
          \<and> getCollaborators 2 s' = Inr [alice])"
proof -
  have ia: "isAuthorized 2 bob (run demo_env deployed demo_two) = Inr False"
    by (simp add: demo_defs ledger_defs isAuthorized_def)
  have gc: "getCollaborators 2 (run demo_env deployed demo_two) = Inr [alice]"
    by (simp add: demo_defs ledger_defs getCollaborators_def)
  have "\<exists>s'. updateDocumentBody (sent_by bob 200) 2 ''ciphertext'' (run demo_env deployed demo_two)
              = Inr s'
          \<and> getDocument 2 s' = Inr \<lparr>name = ''Doc One'', encryptedBody = ''ciphertext'',
               encryptedSecret = 7, owner = alice, updatedAt = 200\<rparr>"
    by (simp add: demo_defs ledger_defs getDocument_def)
  then obtain s' where u: "updateDocumentBody (sent_by bob 200) 2 ''ciphertext''
        (run demo_env deployed demo_two) = Inr s'"
    and gd: "getDocument 2 s' = Inr \<lparr>name = ''Doc One'', encryptedBody = ''ciphertext'',
               encryptedSecret = 7, owner = alice, updatedAt = 200\<rparr>"
    by blast
  note th = updateDocumentBody_keeps_acl [OF u]
  from th have "isAuthorized 2 bob s' = isAuthorized 2 bob (run demo_env deployed demo_two)"
    by blast
  then have ia': "isAuthorized 2 bob s' = Inr False" unfolding ia .
  from th have "getCollaborators 2 s' = getCollaborators 2 (run demo_env deployed demo_two)"
    by blast
  then have gc': "getCollaborators 2 s' = Inr [alice]" unfolding gc .
  from u gd ia' gc' have "\<exists>s'. updateDocumentBody (sent_by bob 200) 2 ''ciphertext''
        (run demo_env deployed demo_two) = Inr s'
          \<and> getDocument 2 s' = Inr \<lparr>name = ''Doc One'', encryptedBody = ''ciphertext'',
               encryptedSecret = 7, owner = alice, updatedAt = 200\<rparr>
          \<and> isAuthorized 2 bob s' = Inr False
          \<and> getCollaborators 2 s' = Inr [alice]" by blast
  with ia gc show ?thesis by (intro conjI)
qed

section \<open>Properties of the codec\<close>

lemma below_16_cases:
  assumes "n < (16::nat)"
  obtains "n = 0" | "n = 1" | "n = 2" | "n = 3" | "n = 4" | "n = 5" | "n = 6" | "n = 7"
    | "n = 8" | "n = 9" | "n = 10" | "n = 11" | "n = 12" | "n = 13" | "n = 14" | "n = 15"
  using assms by atomize_elim arith

lemma hex_digit_props:
  assumes "n < 16"
  shows "digit16 (hex_digit n) = Some n"
    and "\<not> is_line_terminator (hex_digit n)"
    and "\<not> is_white_space (hex_digit n)"
    and "hex_digit n \<noteq> 0x3A" and "hex_digit n \<noteq> 0x2D" and "hex_digit n \<noteq> 0x2B"
    and "hex_digit n \<noteq> 0x78" and "hex_digit n \<noteq> 0x58"
  using assms
  by (cases n rule: below_16_cases;
      simp add: hex_digit_def digit16_def is_line_terminator_def is_white_space_def)+

lemma byte_hex:
  assumes "n < 256"
  shows "padStart 2 0x30 (toString16 n) = [hex_digit (n div 16), hex_digit (n mod 16)]"
  using assms by (simp add: padStart_def toString16_def hex_digit_def)

lemma toHex_Cons:
  "toHex (b # bs) = hex_digit (unat b div 16) # hex_digit (unat b mod 16) # toHex bs"
proof -
  have "unat b < 2 ^ LENGTH(8)" by (rule unsigned_less)
  then have "unat b < 256" by simp
  then show ?thesis by (simp add: toHex_def byte_hex)
qed

lemma toHex_Nil: "toHex [] = []"
  by (simp add: toHex_def)

lemma unat_byte_digits: "unat (b :: 8 word) div 16 < 16" "unat b mod 16 < 16"
proof -
  have "unat b < 2 ^ LENGTH(8)" by (rule unsigned_less)
  then show "unat b div 16 < 16" by simp
  show "unat b mod 16 < 16" by simp
qed

lemma toHex_no_colon: "0x3A \<notin> set (toHex bs)"
proof (induction bs)
  case Nil
  show ?case by (simp add: toHex_Nil)
next
  case (Cons b bs)
  have "hex_digit (unat b div 16) \<noteq> 0x3A" "hex_digit (unat b mod 16) \<noteq> 0x3A"
    by (rule hex_digit_props(4), rule unat_byte_digits)+
  with Cons show ?case by (simp add: toHex_Cons)
qed

lemma toHex_empty: "(toHex bs = []) = (bs = [])"
  by (cases bs) (simp_all add: toHex_Nil toHex_Cons)

lemma length_toHex: "length (toHex bs) = 2 * length bs"
  by (induction bs) (simp_all add: toHex_Nil toHex_Cons)

lemma parseInt16_pair:
  assumes "a < 16" and "b < 16"
  shows "parseInt16 [hex_digit a, hex_digit b] = Some (int (a * 16 + b))"
proof -
  note pa = hex_digit_props [OF assms(1)] and pb = hex_digit_props [OF assms(2)]
  have ss: "strip_sign [hex_digit a, hex_digit b] = (1, [hex_digit a, hex_digit b])"
    using pa by (simp add: strip_sign_def)
  have sx: "strip_0x [hex_digit a, hex_digit b] = [hex_digit a, hex_digit b]"
    using pb by (simp add: strip_0x_def)
  show ?thesis
    using pa(1,3) pb(1)
    by (simp add: parseInt16_def ss sx is_hex_digit_def)
qed

lemma pair_byte:
  "to_uint8 (parseInt16 [hex_digit (unat b div 16), hex_digit (unat b mod 16)]) = (b :: 8 word)"
proof -
  have e: "unat b div 16 * 16 + unat b mod 16 = unat b" by simp
  have "to_uint8 (Some (int (unat b))) = b" by (simp add: to_uint8_def)
  then show ?thesis
    by (simp only: parseInt16_pair [OF unat_byte_digits] e)
qed

lemma match_pairs_toHex:
  "match_pairs (toHex bs) = map (\<lambda>b. [hex_digit (unat b div 16), hex_digit (unat b mod 16)]) bs"
proof (induction bs)
  case Nil
  show ?case by (simp add: toHex_Nil)
next
  case (Cons b bs)
  have "\<not> is_line_terminator (hex_digit (unat b div 16))"
       "\<not> is_line_terminator (hex_digit (unat b mod 16))"
    by (rule hex_digit_props(2), rule unat_byte_digits)+
  with Cons show ?case by (simp add: toHex_Cons)
qed

lemma fromHex_toHex: "fromHex (toHex bs) = Inr bs"
proof -
  have "map (\<lambda>byte. to_uint8 (parseInt16 byte)) (match_pairs (toHex bs)) = bs"
    unfolding match_pairs_toHex
    by (induction bs) (simp_all add: pair_byte)
  then show ?thesis by (simp add: fromHex_def length_toHex)
qed

lemma split_without: "sep \<notin> set xs \<Longrightarrow> split sep xs = [xs]"
  by (induction xs) auto

lemma split_at_first:
  "sep \<notin> set xs \<Longrightarrow> split sep (xs @ sep # ys) = xs # split sep ys"
  by (induction xs) auto

lemma decrypt_encrypt:
  assumes rt: "aes_gcm_decrypt wc (deriveKey wc secret) iv
                 (aes_gcm_encrypt wc (deriveKey wc secret) iv (TextEncoder_encode body))
               = Some (TextEncoder_encode body)"
    and iv: "iv \<noteq> []"
    and ct: "aes_gcm_encrypt wc (deriveKey wc secret) iv (TextEncoder_encode body) \<noteq> []"
  shows "decryptBody wc secret (encryptBody wc iv secret body)
       = Inr (TextDecoder_decode (TextEncoder_encode body))"
proof -
  let ?ct = "aes_gcm_encrypt wc (deriveKey wc secret) iv (TextEncoder_encode body)"
  have p: "encryptBody wc iv secret body = toHex iv @ 0x3A # toHex ?ct"
    by (simp add: encryptBody_def Let_def)
  have sp: "split 0x3A (toHex iv @ 0x3A # toHex ?ct) = [toHex iv, toHex ?ct]"
    by (simp add: split_at_first split_without toHex_no_colon)
  show ?thesis
    using rt iv ct
    by (simp add: p decryptBody_def sp first_two_def toHex_empty fromHex_toHex Let_def)
qed

lemmas utf8_defs = TextDecoder_decode_def TextEncoder_encode_def js_def scalar_of_unit_def
  is_high_surrogate_def is_low_surrogate_def utf8_of_code_point_def utf8_lead_def strip_bom_def
  units_of_code_point_def

lemmas hex_defs = toHex_def padStart_def toString16_def hex_digit_def fromHex_def
  is_line_terminator_def parseInt16_def strip_sign_def strip_0x_def is_white_space_def
  digit16_def is_hex_digit_def to_uint8_def

lemmas body_defs = encryptBody_def decryptBody_def deriveKey_def first_two_def demo_crypto_def
  demo_tag_def demo_iv_def demo_secret_def Let_def

lemma fromHex_even: "even (length hex) \<Longrightarrow> fromHex hex = Inr (hex_bytes hex)"
  by (simp add: fromHex_def hex_bytes_def even_iff_mod_2_eq_zero)

lemma fromHex_odd: "odd (length hex) \<Longrightarrow> fromHex hex = Inl InvalidEncoding"
  by (simp add: fromHex_def odd_iff_mod_2_eq_one)

lemma split_two_fields:
  assumes "sep \<notin> set xs" and "sep \<notin> set ys" and "rest = [] \<or> (\<exists>r. rest = sep # r)"
  shows "first_two (split sep (xs @ sep # ys @ rest)) = (xs, Some ys)"
proof -
  from assms(3) have "\<exists>ps. split sep (ys @ rest) = ys # ps"
  proof
    assume "rest = []"
    with assms(2) show ?thesis by (simp add: split_without)
  next
    assume "\<exists>r. rest = sep # r"
    then obtain r where "rest = sep # r" ..
    with assms(2) show ?thesis by (simp add: split_at_first)
  qed
  then obtain ps where "split sep (ys @ rest) = ys # ps" ..
  with assms(1) show ?thesis by (simp add: split_at_first first_two_def)
qed

text \<open>
  Claim C3, as the code has it. Decrypting the empty payload gives the empty string. A
  payload without a colon fails with \<open>MalformedPayload\<close>. Otherwise the payload is cut at
  every colon and the first two pieces are the nonce and the data (what follows a second
  colon is ignored): it fails with \<open>MalformedPayload\<close> when one of the two is empty, else
  with \<open>InvalidEncoding\<close> when one of the two has odd length. Else no character is
  rejected: each piece is decoded by \<open>hex_bytes\<close>, that is, cut from left to right
  into runs of one or two characters with line terminators skipped, each run read
  with \<^verbatim>\<open>parseInt(run, 16)\<close> and a run that does not parse giving the byte 0, and the
  two byte arrays are handed to authenticated decryption.
\<close>

theorem decryptBody_failures:
  "decryptBody wc secret [] = Inr []
   \<and> (payload \<noteq> [] \<and> 0x3A \<notin> set payload \<longrightarrow>
        decryptBody wc secret payload = Inl MalformedPayload)
   \<and> (0x3A \<notin> set ivHex \<and> 0x3A \<notin> set dataHex \<and> (rest = [] \<or> (\<exists>r. rest = 0x3A # r)) \<longrightarrow>
        decryptBody wc secret (ivHex @ 0x3A # dataHex @ rest) =
          (if ivHex = [] \<or> dataHex = [] then Inl MalformedPayload
           else if odd (length ivHex) \<or> odd (length dataHex) then Inl InvalidEncoding
           else case aes_gcm_decrypt wc (deriveKey wc secret) (hex_bytes ivHex) (hex_bytes dataHex) of
                  None \<Rightarrow> Inl AuthenticationFailure
                | Some decrypted \<Rightarrow> Inr (TextDecoder_decode decrypted)))"
proof (intro conjI impI)
  show "decryptBody wc secret [] = Inr []"
    by (simp add: decryptBody_def)
next
  assume "payload \<noteq> [] \<and> 0x3A \<notin> set payload"
  then show "decryptBody wc secret payload = Inl MalformedPayload"
    by (simp add: decryptBody_def split_without first_two_def)
next
  assume a: "0x3A \<notin> set ivHex \<and> 0x3A \<notin> set dataHex \<and> (rest = [] \<or> (\<exists>r. rest = 0x3A # r))"
  then have f: "first_two (split 0x3A (ivHex @ 0x3A # dataHex @ rest)) = (ivHex, Some dataHex)"
    by (intro split_two_fields) simp_all
  show "decryptBody wc secret (ivHex @ 0x3A # dataHex @ rest) =
          (if ivHex = [] \<or> dataHex = [] then Inl MalformedPayload
           else if odd (length ivHex) \<or> odd (length dataHex) then Inl InvalidEncoding
           else case aes_gcm_decrypt wc (deriveKey wc secret) (hex_bytes ivHex) (hex_bytes dataHex) of
                  None \<Rightarrow> Inl AuthenticationFailure
                | Some decrypted \<Rightarrow> Inr (TextDecoder_decode decrypted))"
  proof (cases "ivHex = [] \<or> dataHex = []")
    case True
    then show ?thesis by (auto simp: decryptBody_def f)
  next
    case False
    show ?thesis
    proof (cases "odd (length ivHex)")
      case True
      with False show ?thesis by (simp add: decryptBody_def f fromHex_odd Let_def)
    next
      case evi: False
      show ?thesis
      proof (cases "odd (length dataHex)")
        case True
        with False evi show ?thesis
          by (simp add: decryptBody_def f fromHex_odd fromHex_even Let_def)
      next
        case evd: False
        with False evi show ?thesis
          by (simp add: decryptBody_def f fromHex_even Let_def)
      qed
    qed
  qed
qed

theorem decryptBody_failures_witness:
  "decryptBody demo_crypto demo_secret (js ''abcdef'') = Inl MalformedPayload
   \<and> decryptBody demo_crypto demo_secret (js ''abc:de'') = Inl InvalidEncoding
   \<and> decryptBody demo_crypto demo_secret (js ''abcd:ef:0'') = Inl AuthenticationFailure
   \<and> decryptBody demo_crypto demo_secret (js ''zz:zz'') = Inl AuthenticationFailure"
proof -
  note th = decryptBody_failures [of demo_crypto demo_secret]
  have "js ''abcdef'' \<noteq> [] \<and> 0x3A \<notin> set (js ''abcdef'')" by (simp add: js_def)
  with th [of "js ''abcdef''"]
  have r1: "decryptBody demo_crypto demo_secret (js ''abcdef'') = Inl MalformedPayload" by blast
  have e2: "js ''abc:de'' = js ''abc'' @ 0x3A # js ''de'' @ []" by (simp add: js_def)
  have "0x3A \<notin> set (js ''abc'') \<and> 0x3A \<notin> set (js ''de'') \<and> ([] = [] \<or> (\<exists>r. [] = (0x3A::jschar) # r))"
    by (simp add: js_def)
  with th [of _ "js ''abc''" "js ''de''" "[]"]
  have r2: "decryptBody demo_crypto demo_secret (js ''abc:de'') = Inl InvalidEncoding"
    unfolding e2 by (simp add: js_def)
  have e3: "js ''abcd:ef:0'' = js ''abcd'' @ 0x3A # js ''ef'' @ (0x3A # js ''0'')" by (simp add: js_def)
  have h3: "0x3A \<notin> set (js ''abcd'') \<and> 0x3A \<notin> set (js ''ef'')
      \<and> (0x3A # js ''0'' = [] \<or> (\<exists>r. 0x3A # js ''0'' = (0x3A::jschar) # r))"
    by (simp add: js_def)
  have d3: "aes_gcm_decrypt demo_crypto (deriveKey demo_crypto demo_secret)
                (hex_bytes (js ''abcd'')) (hex_bytes (js ''ef'')) = None"
    by (simp add: hex_bytes_def js_def hex_defs demo_crypto_def)
  from th [of _ "js ''abcd''" "js ''ef''" "0x3A # js ''0''"] h3
  have r3: "decryptBody demo_crypto demo_secret (js ''abcd:ef:0'') = Inl AuthenticationFailure"
    unfolding e3 by (simp add: d3) (simp add: js_def)
  have e4: "js ''zz:zz'' = js ''zz'' @ 0x3A # js ''zz'' @ []" by (simp add: js_def)
  have h4: "0x3A \<notin> set (js ''zz'') \<and> 0x3A \<notin> set (js ''zz'') \<and> ([] = [] \<or> (\<exists>r. [] = (0x3A::jschar) # r))"
    by (simp add: js_def)
  have d4: "aes_gcm_decrypt demo_crypto (deriveKey demo_crypto demo_secret)
                (hex_bytes (js ''zz'')) (hex_bytes (js ''zz'')) = None"
    by (simp add: hex_bytes_def js_def hex_defs demo_crypto_def)
  from th [of _ "js ''zz''" "js ''zz''" "[]"] h4
  have r4: "decryptBody demo_crypto demo_secret (js ''zz:zz'') = Inl AuthenticationFailure"
    unfolding e4 by (simp add: d4) (simp add: js_def)
  from r1 r2 r3 r4 show ?thesis by (intro conjI)
qed

text \<open>
  Line terminators are dropped before the pairs are read: the piece of two line feeds and
  \<^verbatim>\<open>"4537"\<close> gives the two bytes 0x45 and 0x37.
\<close>

lemma hex_bytes_skips_line_terminators:
  "hex_bytes (0x0A # 0x0A # js ''4537'') = [0x45, 0x37]"
  by (simp add: hex_bytes_def js_def hex_defs)

text \<open>
  A piece with characters that are no hex digits is not rejected: \<^verbatim>\<open>"zz"\<close> decodes to
  the byte 0, and a payload whose first pair \<^verbatim>\<open>"0a"\<close> is rewritten \<^verbatim>\<open>" a"\<close> decrypts to
  the original body. In \<^verbatim>\<open>"aa::bb"\<close> the text after the first colon is not empty, and
  the payload is malformed all the same.
\<close>

theorem decryptBody_nonhex_counterexample:
  "\<not> list_all is_hex_digit (js ''zz'')
   \<and> fromHex (js ''zz'') = Inr [0]
   \<and> decryptBody demo_crypto demo_secret (js ''zz:zz'') = Inl AuthenticationFailure
   \<and> \<not> list_all is_hex_digit (js '' a'')
   \<and> decryptBody demo_crypto demo_secret
        (js '' a'' @ drop 2 (encryptBody demo_crypto demo_iv demo_secret (js ''hello'')))
       = Inr (js ''hello'')
   \<and> decryptBody demo_crypto demo_secret (js ''aa::bb'') = Inl MalformedPayload"
proof (intro conjI)
  show "\<not> list_all is_hex_digit (js ''zz'')"
    by (simp add: js_def hex_defs)
  show "fromHex (js ''zz'') = Inr [0]"
    by (simp add: js_def hex_defs)
  show "decryptBody demo_crypto demo_secret (js ''zz:zz'') = Inl AuthenticationFailure"
    by (simp add: utf8_defs hex_defs body_defs)
  show "\<not> list_all is_hex_digit (js '' a'')"
    by (simp add: js_def hex_defs)
  show "decryptBody demo_crypto demo_secret
        (js '' a'' @ drop 2 (encryptBody demo_crypto demo_iv demo_secret (js ''hello'')))
       = Inr (js ''hello'')"
    by (simp add: utf8_defs hex_defs body_defs)
  show "decryptBody demo_crypto demo_secret (js ''aa::bb'') = Inl MalformedPayload"
    by (simp add: js_def body_defs)
qed

subsection \<open>Text survives encoding and decoding, a leading byte order mark apart\<close>

lemma unat_byte: "x < 256 \<Longrightarrow> unat (of_nat x :: 8 word) = x"
  by (simp add: unat_of_nat)

lemma add_mod_block: "r < m \<Longrightarrow> a = k * m \<Longrightarrow> (a + r) mod m = (r::nat)"
  by simp

lemma decoder_lead:
  assumes "unat b = x"
  shows "utf8_decoder c 0 l u (b # bs) =
    (case utf8_lead x of
       Inl c' \<Rightarrow> c' # utf8_decoder 0 0 0x80 0xBF bs
     | Inr (cp', needed', lower', upper') \<Rightarrow> utf8_decoder cp' needed' lower' upper' bs)"
  by (simp add: assms)

lemma decoder_cont:
  assumes "unat b = 0x80 + r" and "r < 64" and "lower \<le> 0x80 + r" and "0x80 + r \<le> upper"
    and "0 < needed"
  shows "utf8_decoder c needed lower upper (b # bs) =
    (if needed = 1 then (c * 0x40 + r) # utf8_decoder 0 0 0x80 0xBF bs
     else utf8_decoder (c * 0x40 + r) (needed - 1) 0x80 0xBF bs)"
proof -
  have m: "(0x80 + r) mod 0x40 = r" using assms(2) by (rule add_mod_block [where k = 2]) simp
  show ?thesis
    using assms(3,4,5) by (simp add: assms(1) m)
qed

lemma decode_1:
  assumes "cp < 0x80"
  shows "utf8_decoder 0 0 0x80 0xBF (utf8_of_code_point cp @ rest) = cp # utf8_decoder 0 0 0x80 0xBF rest"
proof -
  have l: "utf8_lead cp = Inl cp" using assms by (simp add: utf8_lead_def)
  have "cp < 256" using assms by simp
  then have u: "unat (of_nat cp :: 8 word) = cp" by (rule unat_byte)
  have enc: "utf8_of_code_point cp = [of_nat cp]"
    using assms by (simp add: utf8_of_code_point_def)
  show ?thesis
    unfolding enc by (simp only: append.simps decoder_lead [OF u] l sum.case)
qed

lemma decode_2:
  assumes "0x80 \<le> cp" and "cp < 0x800"
  shows "utf8_decoder 0 0 0x80 0xBF (utf8_of_code_point cp @ rest) = cp # utf8_decoder 0 0 0x80 0xBF rest"
proof -
  define q r where "q = cp div 0x40" and "r = cp mod 0x40"
  have cp: "cp = q * 0x40 + r" and r: "r < 64" by (simp_all add: q_def r_def)
  from assms cp r have q: "2 \<le> q" "q < 32" by linarith+
  define b0 b1 :: "8 word" where "b0 = of_nat (0xC0 + q)" and "b1 = of_nat (0x80 + r)"
  have u0: "unat b0 = 0xC0 + q" unfolding b0_def using q by (intro unat_byte) simp
  have u1: "unat b1 = 0x80 + r" unfolding b1_def using r by (intro unat_byte) simp
  have enc: "utf8_of_code_point cp = [b0, b1]"
    using assms unfolding b0_def b1_def q_def r_def utf8_of_code_point_def by simp
  have m: "(0xC0 + q) mod 0x20 = q" using q(2) by (rule add_mod_block [where k = 6]) simp
  have l: "utf8_lead (0xC0 + q) = Inr (q, 1, 0x80, 0xBF)"
    using q by (simp add: utf8_lead_def m)
  have c1: "utf8_decoder q 1 0x80 0xBF (b1 # rest) = (q * 0x40 + r) # utf8_decoder 0 0 0x80 0xBF rest"
    using r by (subst decoder_cont [OF u1 r]) simp_all
  show ?thesis
    unfolding enc by (simp only: append.simps decoder_lead [OF u0] l sum.case prod.case c1 cp)
qed

lemma decode_3:
  assumes "0x800 \<le> cp" and "cp < 0x10000" and "\<not> (0xD800 \<le> cp \<and> cp \<le> 0xDFFF)"
  shows "utf8_decoder 0 0 0x80 0xBF (utf8_of_code_point cp @ rest) = cp # utf8_decoder 0 0 0x80 0xBF rest"
proof -
  define k r where "k = cp div 0x40" and "r = cp mod 0x40"
  define q m where "q = k div 0x40" and "m = k mod 0x40"
  have cp: "cp = k * 0x40 + r" and r: "r < 64" by (simp_all add: k_def r_def)
  have k: "k = q * 0x40 + m" and m: "m < 64" by (simp_all add: q_def m_def)
  from assms cp k r m have q: "q < 16" by linarith
  have d: "cp div 0x1000 = q"
    unfolding q_def k_def by (simp add: div_mult2_eq [symmetric])
  define b0 b1 b2 :: "8 word"
    where "b0 = of_nat (0xE0 + q)" and "b1 = of_nat (0x80 + m)" and "b2 = of_nat (0x80 + r)"
  have u0: "unat b0 = 0xE0 + q" unfolding b0_def using q by (intro unat_byte) simp
  have u1: "unat b1 = 0x80 + m" unfolding b1_def using m by (intro unat_byte) simp
  have u2: "unat b2 = 0x80 + r" unfolding b2_def using r by (intro unat_byte) simp
  have enc: "utf8_of_code_point cp = [b0, b1, b2]"
    using assms(1,2) unfolding b0_def b1_def b2_def utf8_of_code_point_def d
    by (simp add: m_def k_def r_def)
  have md: "(0xE0 + q) mod 0x10 = q" using q by (rule add_mod_block [where k = 14]) simp
  let ?lo = "if 0xE0 + q = 0xE0 then 0xA0 else (0x80::nat)"
  let ?hi = "if 0xE0 + q = 0xED then 0x9F else (0xBF::nat)"
  have l: "utf8_lead (0xE0 + q) = Inr (q, 2, ?lo, ?hi)"
    using q by (simp add: utf8_lead_def md)
  have lo: "?lo \<le> 0x80 + m"
  proof (cases "q = 0")
    case True
    with assms(1) cp k r have "32 \<le> m" by linarith
    with True show ?thesis by simp
  next
    case False
    then show ?thesis by simp
  qed
  have hi: "0x80 + m \<le> ?hi"
  proof (cases "q = 13")
    case True
    with assms(3) cp k r m have "m < 32" by linarith
    with True show ?thesis by simp
  next
    case False
    with m show ?thesis by simp
  qed
  have c1: "utf8_decoder q 2 ?lo ?hi (b1 # b2 # rest) = utf8_decoder (q * 0x40 + m) 1 0x80 0xBF (b2 # rest)"
    by (subst decoder_cont [OF u1 m lo hi]) simp_all
  have c2: "utf8_decoder (q * 0x40 + m) 1 0x80 0xBF (b2 # rest)
      = ((q * 0x40 + m) * 0x40 + r) # utf8_decoder 0 0 0x80 0xBF rest"
    using r by (subst decoder_cont [OF u2 r]) simp_all
  show ?thesis
    unfolding enc by (simp only: append.simps decoder_lead [OF u0] l sum.case prod.case c1 c2 cp k)
qed

lemma decode_4:
  assumes "0x10000 \<le> cp" and "cp < 0x110000"
  shows "utf8_decoder 0 0 0x80 0xBF (utf8_of_code_point cp @ rest) = cp # utf8_decoder 0 0 0x80 0xBF rest"
proof -
  define k r where "k = cp div 0x40" and "r = cp mod 0x40"
  define j m where "j = k div 0x40" and "m = k mod 0x40"
  define q n where "q = j div 0x40" and "n = j mod 0x40"
  have cp: "cp = k * 0x40 + r" and r: "r < 64" by (simp_all add: k_def r_def)
  have k: "k = j * 0x40 + m" and m: "m < 64" by (simp_all add: j_def m_def)
  have j: "j = q * 0x40 + n" and n: "n < 64" by (simp_all add: q_def n_def)
  from assms cp k j r m n have q: "q < 5" by linarith
  have d1: "cp div 0x1000 = j"
    unfolding j_def k_def by (simp add: div_mult2_eq [symmetric])
  have d2: "cp div 0x40000 = q"
    unfolding q_def j_def k_def by (simp add: div_mult2_eq [symmetric])
  define b0 b1 b2 b3 :: "8 word"
    where "b0 = of_nat (0xF0 + q)" and "b1 = of_nat (0x80 + n)"
      and "b2 = of_nat (0x80 + m)" and "b3 = of_nat (0x80 + r)"
  have u0: "unat b0 = 0xF0 + q" unfolding b0_def using q by (intro unat_byte) simp
  have u1: "unat b1 = 0x80 + n" unfolding b1_def using n by (intro unat_byte) simp
  have u2: "unat b2 = 0x80 + m" unfolding b2_def using m by (intro unat_byte) simp
  have u3: "unat b3 = 0x80 + r" unfolding b3_def using r by (intro unat_byte) simp
  have enc: "utf8_of_code_point cp = [b0, b1, b2, b3]"
    using assms(1) unfolding b0_def b1_def b2_def b3_def utf8_of_code_point_def d1 d2
    by (simp add: n_def m_def k_def r_def)
  have md: "(0xF0 + q) mod 0x8 = q" using q by (intro add_mod_block [where k = 30]) simp_all
  let ?lo = "if 0xF0 + q = 0xF0 then 0x90 else (0x80::nat)"
  let ?hi = "if 0xF0 + q = 0xF4 then 0x8F else (0xBF::nat)"
  have l: "utf8_lead (0xF0 + q) = Inr (q, 3, ?lo, ?hi)"
    using q by (simp add: utf8_lead_def md)
  have lo: "?lo \<le> 0x80 + n"
  proof (cases "q = 0")
    case True
    with assms(1) cp k j r m have "16 \<le> n" by linarith
    with True show ?thesis by simp
  next
    case False
    then show ?thesis by simp
  qed
  have hi: "0x80 + n \<le> ?hi"
  proof (cases "q = 4")
    case True
    with assms(2) cp k j have "n < 16" by linarith
    with True show ?thesis by simp
  next
    case False
    with n show ?thesis by simp
  qed
  have c1: "utf8_decoder q 3 ?lo ?hi (b1 # b2 # b3 # rest)
      = utf8_decoder (q * 0x40 + n) 2 0x80 0xBF (b2 # b3 # rest)"
    by (subst decoder_cont [OF u1 n lo hi]) simp_all
  have c2: "utf8_decoder (q * 0x40 + n) 2 0x80 0xBF (b2 # b3 # rest)
      = utf8_decoder ((q * 0x40 + n) * 0x40 + m) 1 0x80 0xBF (b3 # rest)"
    using m by (subst decoder_cont [OF u2 m]) simp_all
  have c3: "utf8_decoder ((q * 0x40 + n) * 0x40 + m) 1 0x80 0xBF (b3 # rest)
      = (((q * 0x40 + n) * 0x40 + m) * 0x40 + r) # utf8_decoder 0 0 0x80 0xBF rest"
    using r by (subst decoder_cont [OF u3 r]) simp_all
  show ?thesis
    unfolding enc
    by (simp only: append.simps decoder_lead [OF u0] l sum.case prod.case c1 c2 c3 cp k j)
qed

lemma decode_scalar:
  assumes "is_scalar cp"
  shows "utf8_decoder 0 0 0x80 0xBF (utf8_of_code_point cp @ rest) = cp # utf8_decoder 0 0 0x80 0xBF rest"
proof -
  consider "cp < 0x80" | "0x80 \<le> cp" "cp < 0x800" | "0x800 \<le> cp" "cp < 0x10000"
    | "0x10000 \<le> cp" by linarith
  then show ?thesis
  proof cases
    case 1
    then show ?thesis by (rule decode_1)
  next
    case 2
    then show ?thesis by (rule decode_2)
  next
    case 3
    with assms show ?thesis by (intro decode_3) (simp_all add: is_scalar_def)
  next
    case 4
    with assms show ?thesis by (intro decode_4) (simp_all add: is_scalar_def)
  qed
qed

lemma decode_encode_code_points:
  "list_all is_scalar cps \<Longrightarrow>
   utf8_decoder 0 0 0x80 0xBF (concat (map utf8_of_code_point cps)) = cps"
  by (induction cps) (simp_all add: decode_scalar)

lemma unat_unit_bound: "unat (c :: 16 word) < 65536"
proof -
  have "unat c < 2 ^ LENGTH(16)" by (rule unsigned_less)
  then show ?thesis by simp
qed

lemma scalar_of_unit_scalar: "is_scalar (scalar_of_unit c)"
  using unat_unit_bound [of c]
  by (auto simp: is_scalar_def scalar_of_unit_def is_high_surrogate_def is_low_surrogate_def)

lemma surrogate_offsets:
  assumes "is_high_surrogate c" and "is_low_surrogate d"
  shows "unat c = 0xD800 + (unat c - 0xD800)" and "unat c - 0xD800 < 0x400"
    and "unat d = 0xDC00 + (unat d - 0xDC00)" and "unat d - 0xDC00 < 0x400"
proof -
  from assms have "0xD800 \<le> unat c" "unat c \<le> 0xDBFF" "0xDC00 \<le> unat d" "unat d \<le> 0xDFFF"
    by (simp_all add: is_high_surrogate_def is_low_surrogate_def)
  then show "unat c = 0xD800 + (unat c - 0xD800)" and "unat c - 0xD800 < 0x400"
    and "unat d = 0xDC00 + (unat d - 0xDC00)" and "unat d - 0xDC00 < 0x400"
    by linarith+
qed

lemma pair_scalar:
  assumes "is_high_surrogate c" and "is_low_surrogate d"
  shows "is_scalar (0x10000 + (unat c - 0xD800) * 0x400 + (unat d - 0xDC00))"
proof -
  define h l where "h = unat c - 0xD800" and "l = unat d - 0xDC00"
  from surrogate_offsets [OF assms] have "h < 0x400" and "l < 0x400"
    by (simp_all add: h_def l_def)
  then have "0x10000 + h * 0x400 + l < 0x110000" and "0xDFFF < 0x10000 + h * 0x400 + l"
    by linarith+
  then show ?thesis unfolding h_def l_def is_scalar_def by simp
qed

lemma code_points_scalar: "list_all is_scalar (code_points s)"
  by (induction s rule: code_points.induct) (simp_all add: scalar_of_unit_scalar pair_scalar)

lemma units_of_plain:
  assumes "\<not> is_high_surrogate c" and "\<not> is_low_surrogate c"
  shows "units_of_code_point (scalar_of_unit c) = [c]"
  using assms unat_unit_bound [of c]
  by (simp add: units_of_code_point_def scalar_of_unit_def)

lemma units_of_pair:
  assumes "is_high_surrogate c" and "is_low_surrogate d"
  shows "units_of_code_point (0x10000 + (unat c - 0xD800) * 0x400 + (unat d - 0xDC00)) = [c, d]"
proof -
  define h l where "h = unat c - 0xD800" and "l = unat d - 0xDC00"
  from surrogate_offsets [OF assms]
  have h: "unat c = 0xD800 + h" and l: "unat d = 0xDC00 + l" and lb: "l < 0x400"
    by (simp_all add: h_def l_def)
  have dv: "(h * 0x400 + l) div 0x400 = h" and md: "(h * 0x400 + l) mod 0x400 = l"
    using lb by simp_all
  have "units_of_code_point (0x10000 + h * 0x400 + l)
      = [of_nat (0xD800 + (h * 0x400 + l) div 0x400), of_nat (0xDC00 + (h * 0x400 + l) mod 0x400)]"
    by (simp add: units_of_code_point_def add.assoc)
  also have "\<dots> = [of_nat (unat c), of_nat (unat d)]"
    unfolding dv md h l ..
  also have "\<dots> = [c, d]" by simp
  finally show ?thesis unfolding h_def l_def .
qed

lemma units_code_points:
  "well_formed s \<Longrightarrow> concat (map units_of_code_point (code_points s)) = s"
  by (induction s rule: code_points.induct)
    (auto simp: units_of_plain units_of_pair split: if_splits)

lemma scalar_of_unit_bom: "c \<noteq> 0xFEFF \<Longrightarrow> scalar_of_unit c \<noteq> 0xFEFF"
proof -
  assume c: "c \<noteq> 0xFEFF"
  have "unat c \<noteq> 0xFEFF"
  proof
    assume "unat c = 0xFEFF"
    then have "of_nat (unat c) = (of_nat 0xFEFF :: 16 word)" by simp
    then have "c = 0xFEFF" by simp
    with c show False ..
  qed
  then show ?thesis by (simp add: scalar_of_unit_def)
qed

lemma strip_bom_code_points:
  assumes "s = [] \<or> hd s \<noteq> 0xFEFF"
  shows "strip_bom (code_points s) = code_points s"
proof (cases s rule: code_points.cases)
  case 1
  then show ?thesis by (simp add: strip_bom_def)
next
  case (2 c)
  with assms have "scalar_of_unit c \<noteq> 0xFEFF" by (simp add: scalar_of_unit_bom)
  with 2 show ?thesis by (simp add: strip_bom_def)
next
  case (3 c d cs)
  with assms have "scalar_of_unit c \<noteq> 0xFEFF" by (simp add: scalar_of_unit_bom)
  with 3 show ?thesis by (simp add: strip_bom_def)
qed

lemma decode_encode:
  assumes "well_formed s" and "s = [] \<or> hd s \<noteq> 0xFEFF"
  shows "TextDecoder_decode (TextEncoder_encode s) = s"
  using assms
  by (simp add: TextDecoder_decode_def TextEncoder_encode_def decode_encode_code_points
      code_points_scalar strip_bom_code_points units_code_points)

text \<open>
  For a body in which every surrogate is paired and which does not start with U+FEFF,
  and a cipher whose decryption inverts its encryption and whose output is not empty,
  decryption returns the body that was encrypted.
\<close>

lemma body_round_trip:
  assumes "well_formed body" and "body = [] \<or> hd body \<noteq> 0xFEFF"
    and "aes_gcm_decrypt wc (deriveKey wc secret) iv
           (aes_gcm_encrypt wc (deriveKey wc secret) iv (TextEncoder_encode body))
         = Some (TextEncoder_encode body)"
    and "iv \<noteq> []"
    and "aes_gcm_encrypt wc (deriveKey wc secret) iv (TextEncoder_encode body) \<noteq> []"
  shows "decryptBody wc secret (encryptBody wc iv secret body) = Inr body"
  using decrypt_encrypt [OF assms(3,4,5)] decode_encode [OF assms(1,2)] by simp

subsection \<open>The round trip\<close>

text \<open>
  Claim C2 at the body \<^verbatim>\<open>"\\uFEFFhi"\<close>. Whatever the secret, the nonce and the cipher
  (as long as decryption inverts encryption), decrypting the encrypted body returns
  \<^verbatim>\<open>"hi"\<close>: the decoder drops the leading byte order mark.
\<close>
theorem round_trip_loses_byte_order_mark:
  assumes "aes_gcm_decrypt wc (deriveKey wc secret) iv
             (aes_gcm_encrypt wc (deriveKey wc secret) iv (TextEncoder_encode (0xFEFF # js ''hi'')))
           = Some (TextEncoder_encode (0xFEFF # js ''hi''))"
    and "iv \<noteq> []"
    and "aes_gcm_encrypt wc (deriveKey wc secret) iv (TextEncoder_encode (0xFEFF # js ''hi'')) \<noteq> []"
  shows "decryptBody wc secret (encryptBody wc iv secret (0xFEFF # js ''hi'')) = Inr (js ''hi'')"
proof -
  have "TextDecoder_decode (TextEncoder_encode (0xFEFF # js ''hi'')) = js ''hi''"
    by (simp add: utf8_defs)
  with decrypt_encrypt [OF assms] show ?thesis by simp
qed

theorem round_trip_loses_byte_order_mark_witness:
  "decryptBody demo_crypto demo_secret
     (encryptBody demo_crypto demo_iv demo_secret (0xFEFF # js ''hi'')) = Inr (js ''hi'')
   \<and> js ''hi'' \<noteq> 0xFEFF # js ''hi''"
proof -
  have 1: "aes_gcm_decrypt demo_crypto (deriveKey demo_crypto demo_secret) demo_iv
             (aes_gcm_encrypt demo_crypto (deriveKey demo_crypto demo_secret) demo_iv
                (TextEncoder_encode (0xFEFF # js ''hi'')))
           = Some (TextEncoder_encode (0xFEFF # js ''hi''))"
    by (simp add: utf8_defs body_defs)
  have 2: "demo_iv \<noteq> []" by (simp add: demo_iv_def)
  have 3: "aes_gcm_encrypt demo_crypto (deriveKey demo_crypto demo_secret) demo_iv
                (TextEncoder_encode (0xFEFF # js ''hi'')) \<noteq> []"
    by (simp add: demo_crypto_def demo_tag_def)
  have 4: "js ''hi'' \<noteq> 0xFEFF # js ''hi''" by (simp add: js_def)
  from round_trip_loses_byte_order_mark [OF 1 2 3] 4 show ?thesis by (rule conjI)
qed

section \<open>Properties of the session\<close>

text \<open>
  Claim C9, as the code has it. \<^verbatim>\<open>updateBody\<close> never throws to its caller. When the
  ledger rejects the write, with \<open>Unauthorized\<close> or with any other error, the error is
  logged to the console, the status line becomes the same fixed message whatever the
  error, the updating flag is cleared, and the ledger and the rest of the session are as
  before: the caller is not given the error.
\<close>
theorem updateBody_swallows_errors:
  "(\<exists>r. updateBody wc iv signer now ss s = Inr r)
   \<and> (activeDocument ss \<noteq> None \<and> clearSecret ss \<noteq> []
        \<and> updateDocumentBody \<lparr>msg_sender = account, block_timestamp = now\<rparr>
              (activeDocumentIndex ss)
              (abi_string (encryptBody wc iv (clearSecret ss) (bodyDraft ss))) s = Inl err \<longrightarrow>
       updateBody wc iv (Some account) now ss s =
         Inr (ss\<lparr>status := Some ''Update failed. Confirm you have ACL to this document.'',
                 isUpdating := False, console := console ss @ [err]\<rparr>, s))"
proof (intro conjI impI)
  show "\<exists>r. updateBody wc iv signer now ss s = Inr r"
    by (simp add: updateBody_def Let_def split: option.splits sum.splits)
next
  assume "activeDocument ss \<noteq> None \<and> clearSecret ss \<noteq> []
        \<and> updateDocumentBody \<lparr>msg_sender = account, block_timestamp = now\<rparr>
              (activeDocumentIndex ss)
              (abi_string (encryptBody wc iv (clearSecret ss) (bodyDraft ss))) s = Inl err"
  then show "updateBody wc iv (Some account) now ss s =
         Inr (ss\<lparr>status := Some ''Update failed. Confirm you have ACL to this document.'',
                 isUpdating := False, console := console ss @ [err]\<rparr>, s)"
    by (auto simp: updateBody_def Let_def)
qed

theorem updateBody_swallows_errors_witness:
  "activeDocument demo_session \<noteq> None \<and> clearSecret demo_session \<noteq> []
   \<and> updateBody demo_crypto demo_iv (Some bob) 200 demo_session (run demo_env deployed demo_created)
     = Inr (demo_session\<lparr>status := Some ''Update failed. Confirm you have ACL to this document.'',
              isUpdating := False, console := [Unauthorized bob]\<rparr>,
            run demo_env deployed demo_created)"
proof -
  have a: "activeDocument demo_session \<noteq> None"
    by (simp add: activeDocument_def demo_session_def)
  have c: "clearSecret demo_session \<noteq> []"
    by (simp add: demo_session_def demo_secret_def js_def)
  have i: "activeDocumentIndex demo_session = 1"
    by (simp add: activeDocumentIndex_def demo_session_def)
  have u: "updateDocumentBody \<lparr>msg_sender = bob, block_timestamp = 200\<rparr>
           (activeDocumentIndex demo_session)
           (abi_string (encryptBody demo_crypto demo_iv (clearSecret demo_session)
              (bodyDraft demo_session)))
           (run demo_env deployed demo_created) = Inl (Unauthorized bob)"
    unfolding i by (simp add: demo_defs ledger_defs)
  have k: "console demo_session @ [Unauthorized bob] = [Unauthorized bob]"
    by (simp add: demo_session_def)
  from a c u have "activeDocument demo_session \<noteq> None \<and> clearSecret demo_session \<noteq> []
        \<and> updateDocumentBody \<lparr>msg_sender = bob, block_timestamp = 200\<rparr>
              (activeDocumentIndex demo_session)
              (abi_string (encryptBody demo_crypto demo_iv (clearSecret demo_session)
                 (bodyDraft demo_session)))
              (run demo_env deployed demo_created) = Inl (Unauthorized bob)"
    by (intro conjI)
  with updateBody_swallows_errors [of demo_crypto demo_iv "Some bob" 200 demo_session
      "run demo_env deployed demo_created" bob "Unauthorized bob"]
  have "updateBody demo_crypto demo_iv (Some bob) 200 demo_session (run demo_env deployed demo_created)
     = Inr (demo_session\<lparr>status := Some ''Update failed. Confirm you have ACL to this document.'',
              isUpdating := False, console := console demo_session @ [Unauthorized bob]\<rparr>,
            run demo_env deployed demo_created)"
    by blast
  with a c show ?thesis
    unfolding k by (intro conjI)
qed

text \<open>
  Bob, not granted access, saves a draft: the ledger answers \<open>Unauthorized\<close>, and
  \<^verbatim>\<open>updateBody\<close> returns normally with the status line set.
\<close>

theorem updateBody_unauthorized_counterexample:
  "updateDocumentBody (sent_by bob 200) 1
      (abi_string (encryptBody demo_crypto demo_iv demo_secret (js ''hi'')))
      (run demo_env deployed demo_created) = Inl (Unauthorized bob)
   \<and> updateBody demo_crypto demo_iv (Some bob) 200 demo_session (run demo_env deployed demo_created)
       \<noteq> Inl (Unauthorized bob)
   \<and> status (fst (projr (updateBody demo_crypto demo_iv (Some bob) 200 demo_session
         (run demo_env deployed demo_created))))
       = Some ''Update failed. Confirm you have ACL to this document.''"
proof (intro conjI)
  show "updateDocumentBody (sent_by bob 200) 1
      (abi_string (encryptBody demo_crypto demo_iv demo_secret (js ''hi'')))
      (run demo_env deployed demo_created) = Inl (Unauthorized bob)"
    by (simp add: demo_defs ledger_defs)
  have r: "updateBody demo_crypto demo_iv (Some bob) 200 demo_session (run demo_env deployed demo_created)
     = Inr (demo_session\<lparr>status := Some ''Update failed. Confirm you have ACL to this document.'',
              isUpdating := False, console := [Unauthorized bob]\<rparr>,
            run demo_env deployed demo_created)"
    by (simp add: updateBody_def Let_def activeDocument_def activeDocumentIndex_def demo_session_def
        demo_secret_def js_def demo_defs ledger_defs)
  show "updateBody demo_crypto demo_iv (Some bob) 200 demo_session (run demo_env deployed demo_created)
       \<noteq> Inl (Unauthorized bob)"
    unfolding r by simp
  show "status (fst (projr (updateBody demo_crypto demo_iv (Some bob) 200 demo_session
         (run demo_env deployed demo_created))))
       = Some ''Update failed. Confirm you have ACL to this document.''"
    unfolding r by simp
qed

end
